theory Spec2Isabelle
  imports Complex_Main
begin

section \<open>Python values used by the plugin\<close>

text \<open>
  The plugin under verification is \<^verbatim>\<open>CTFd/plugins/phase2\<close>: the first-blood hook
  (\<^verbatim>\<open>hooks.py\<close>), the signed cache and the evidence sanitiser (\<^verbatim>\<open>utils.py\<close>), the
  consent-gated suspicion records (\<^verbatim>\<open>detection.py\<close>, \<^verbatim>\<open>models.py\<close>) and the verdict
  audit trail (\<^verbatim>\<open>models.py\<close>, \<^verbatim>\<open>api.py\<close>).

  Python exceptions are values of \<open>error\<close>; a function that can raise returns
  \<open>error + 'a\<close> with \<open>Inl\<close> for the exception. Timestamps (\<^verbatim>\<open>datetime\<close>) are
  integers counting microseconds. Strings are \<open>string\<close>.
\<close>

datatype error =
    AttributeError string
  | TypeError string
  | JSONDecodeError
  | IntegrityError string
  | OperationalError string
  | CacheError string

fun str_of_error :: "error \<Rightarrow> string" where
  "str_of_error (AttributeError m) = m"
| "str_of_error (TypeError m) = m"
| "str_of_error JSONDecodeError = ''Expecting value''"
| "str_of_error (IntegrityError m) = m"
| "str_of_error (OperationalError m) = m"
| "str_of_error (CacheError m) = m"

subsection \<open>String methods\<close>

definition lower_char :: "char \<Rightarrow> char" where
  "lower_char c =
     (case map_of (zip ''ABCDEFGHIJKLMNOPQRSTUVWXYZ'' ''abcdefghijklmnopqrstuvwxyz'') c of
        Some l \<Rightarrow> l
      | None \<Rightarrow> c)"

definition lower :: "string \<Rightarrow> string" where
  \<comment> \<open>\<^verbatim>\<open>str.lower()\<close> on the ASCII letters\<close>
  "lower s = map lower_char s"

fun startswith :: "string \<Rightarrow> string \<Rightarrow> bool" where
  \<comment> \<open>\<^verbatim>\<open>s.startswith(p)\<close>\<close>
  "startswith s [] = True"
| "startswith [] (p # ps) = False"
| "startswith (c # cs) (p # ps) = (c = p \<and> startswith cs ps)"

definition endswith :: "string \<Rightarrow> string \<Rightarrow> bool" where
  "endswith s p = startswith (rev s) (rev p)"

fun contains :: "string \<Rightarrow> string \<Rightarrow> bool" where
  \<comment> \<open>\<^verbatim>\<open>sub in s\<close>, written \<open>contains s sub\<close>\<close>
  "contains [] sub = (sub = [])"
| "contains (c # cs) sub = (startswith (c # cs) sub \<or> contains cs sub)"

fun replace_tail :: "nat \<Rightarrow> string \<Rightarrow> string \<Rightarrow> string \<Rightarrow> string" where
  \<comment> \<open>the scan of \<^verbatim>\<open>s.replace(old, new)\<close> for a non-empty \<open>old\<close>; the first argument
      counts the characters still to skip after a match\<close>
  "replace_tail k old new [] = []"
| "replace_tail (Suc k) old new (c # cs) = replace_tail k old new cs"
| "replace_tail 0 old new (c # cs) =
     (if startswith (c # cs) old then new @ replace_tail (length old - 1) old new cs
      else c # replace_tail 0 old new cs)"

definition replace :: "string \<Rightarrow> string \<Rightarrow> string \<Rightarrow> string" where
  "replace s old new = replace_tail 0 old new s"

definition is_ascii :: "string \<Rightarrow> bool" where
  "is_ascii s = list_all (\<lambda>c. (of_char c :: nat) < 128) s"

definition hex_digit :: "nat \<Rightarrow> char" where
  "hex_digit n = ''0123456789abcdef'' ! (n mod 16)"

fun str_nat :: "nat \<Rightarrow> string" where
  "str_nat n = (if n < 10 then [hex_digit n] else str_nat (n div 10) @ [hex_digit (n mod 10)])"

declare str_nat.simps [simp del]

definition str_int :: "int \<Rightarrow> string" where
  \<comment> \<open>\<^verbatim>\<open>str(i)\<close>, as an f-string formats an integer\<close>
  "str_int i = (if i < 0 then CHR ''-'' # str_nat (nat (- i)) else str_nat (nat i))"

section \<open>Prestige score (\<^verbatim>\<open>utils.calculate_prestige_score\<close>)\<close>

text \<open>
  \<^verbatim>\<open>
  def calculate_prestige_score(challenge_value):
      if not challenge_value or challenge_value <= 0:
          challenge_value = 100  # Default for dynamic challenges
      prestige = challenge_value * 1.5
      return int(prestige)
  \<close>
  The argument is the \<^verbatim>\<open>value\<close> column of the challenge, an SQL integer or NULL
  (\<open>None\<close>). For a positive integer \<open>v\<close> the double \<^verbatim>\<open>v * 1.5\<close> is exact as long as
  \<open>3 * v < 2 ^ 53\<close>, which holds for every SQL integer, and \<^verbatim>\<open>int\<close> truncates it, so
  the result is \<open>3 * v div 2\<close>.
\<close>

definition calculate_prestige_score :: "int option \<Rightarrow> int" where
  "calculate_prestige_score challenge_value =
     (let v = (case challenge_value of
                 None \<Rightarrow> 100
               | Some v \<Rightarrow> if v = 0 \<or> v \<le> 0 then 100 else v)
      in (3 * v) div 2)"

section \<open>Library interface: hashing and JSON\<close>

text \<open>
  \<^verbatim>\<open>hashlib\<close>, \<^verbatim>\<open>hmac\<close> and \<^verbatim>\<open>json\<close> are not part of the repository. The model takes
  them as parameters, bundled in a record, and every theorem below holds for every
  such bundle; what a theorem needs from Python's library is stated as a hypothesis.
  A decoded JSON document is a value of \<open>json\<close>; a JSON object carries the items of
  the Python \<^verbatim>\<open>dict\<close>.
\<close>

datatype json =
    JNull
  | JBool bool
  | JNum int
  | JStr string
  | JArr "json list"
  | JObj "(string \<times> json) list"

record pylib =
  hmac_sha256_hex :: "string \<Rightarrow> string \<Rightarrow> string"
    \<comment> \<open>\<^verbatim>\<open>hmac.new(key, msg, hashlib.sha256).hexdigest()\<close>\<close>
  sha256_hex :: "string \<Rightarrow> string"
    \<comment> \<open>\<^verbatim>\<open>hashlib.sha256(msg).hexdigest()\<close>\<close>
  json_dumps :: "json \<Rightarrow> string"
  json_loads :: "string \<Rightarrow> json option"
    \<comment> \<open>\<open>None\<close> stands for \<^verbatim>\<open>json.JSONDecodeError\<close>\<close>

fun json_truthy :: "json \<Rightarrow> bool" where
  \<comment> \<open>Python truth value of a decoded document\<close>
  "json_truthy JNull = False"
| "json_truthy (JBool b) = b"
| "json_truthy (JNum n) = (n \<noteq> 0)"
| "json_truthy (JStr s) = (s \<noteq> [])"
| "json_truthy (JArr xs) = (xs \<noteq> [])"
| "json_truthy (JObj kvs) = (kvs \<noteq> [])"

definition dict_get :: "(string \<times> json) list \<Rightarrow> string \<Rightarrow> json" where
  \<comment> \<open>\<^verbatim>\<open>data.get(key)\<close>: \<^verbatim>\<open>None\<close> when the key is missing\<close>
  "dict_get kvs k = (case map_of kvs k of None \<Rightarrow> JNull | Some v \<Rightarrow> v)"

section \<open>Signed cache (\<^verbatim>\<open>utils.py\<close>, Redis cache integrity)\<close>

record secret_config =
  env_PHASE2_HMAC_SECRET :: "string option"
  app_SECRET_KEY :: "string option"

definition get_hmac_secret :: "secret_config \<Rightarrow> string" where
  "get_hmac_secret cfg =
     (let fallback = (case app_SECRET_KEY cfg of
                        None \<Rightarrow> ''default-insecure-key''
                      | Some k \<Rightarrow> k)
      in case env_PHASE2_HMAC_SECRET cfg of
           None \<Rightarrow> fallback
         | Some secret \<Rightarrow> if secret = [] then fallback else secret)"

definition sign_redis_value :: "pylib \<Rightarrow> secret_config \<Rightarrow> string \<Rightarrow> string" where
  "sign_redis_value L cfg value = hmac_sha256_hex L (get_hmac_secret cfg) value"

definition compare_digest :: "string \<Rightarrow> json \<Rightarrow> error + bool" where
  \<comment> \<open>\<^verbatim>\<open>hmac.compare_digest(a, b)\<close> with \<open>a\<close> a \<^verbatim>\<open>str\<close>: both arguments must be ASCII
      strings, anything else raises \<^verbatim>\<open>TypeError\<close>\<close>
  "compare_digest a b =
     (case b of
        JStr s \<Rightarrow>
          if is_ascii a \<and> is_ascii s then Inr (a = s)
          else Inl (TypeError ''comparing strings with non-ASCII characters is not supported'')
      | _ \<Rightarrow> Inl (TypeError ''unsupported operand types(s) or combination of types''))"

definition verify_redis_signature :: "pylib \<Rightarrow> secret_config \<Rightarrow> json \<Rightarrow> json \<Rightarrow> error + bool" where
  \<comment> \<open>\<^verbatim>\<open>sign_redis_value(value)\<close> calls \<^verbatim>\<open>value.encode('utf-8')\<close>, which only a
      \<^verbatim>\<open>str\<close> has\<close>
  "verify_redis_signature L cfg value signature =
     (if \<not> json_truthy signature then Inr False
      else case value of
             JStr v \<Rightarrow> compare_digest (sign_redis_value L cfg v) signature
           | _ \<Rightarrow> Inl (AttributeError ''object has no attribute encode''))"

type_synonym cache = "string \<rightharpoonup> string"

definition signed_document :: "pylib \<Rightarrow> secret_config \<Rightarrow> string \<Rightarrow> json" where
  \<comment> \<open>the \<^verbatim>\<open>dict\<close> that \<^verbatim>\<open>set_signed_cache\<close> serialises\<close>
  "signed_document L cfg value =
     JObj [(''value'', JStr value), (''signature'', JStr (sign_redis_value L cfg value))]"

definition set_signed_cache :: "pylib \<Rightarrow> secret_config \<Rightarrow> cache \<Rightarrow> string \<Rightarrow> string \<Rightarrow> cache" where
  "set_signed_cache L cfg c key value = c(key \<mapsto> json_dumps L (signed_document L cfg value))"

definition get_signed_cache ::
  "pylib \<Rightarrow> secret_config \<Rightarrow> cache \<Rightarrow> string \<Rightarrow> error + (json option \<times> cache)" where
  \<comment> \<open>returns the value read and the cache, from which a rejected entry has been
      deleted; \<^verbatim>\<open>except (json.JSONDecodeError, KeyError, TypeError)\<close> catches two of the
      exceptions the body can raise, \<^verbatim>\<open>AttributeError\<close> is not among them\<close>
  "get_signed_cache L cfg c key =
     (case c key of
        None \<Rightarrow> Inr (None, c)
      | Some cached_data \<Rightarrow>
          if cached_data = [] then Inr (None, c)
          else case json_loads L cached_data of
            None \<Rightarrow> Inr (None, c(key := None))
          | Some (JObj kvs) \<Rightarrow>
              (let value = dict_get kvs ''value'';
                   signature = dict_get kvs ''signature''
               in case verify_redis_signature L cfg value signature of
                    Inr True \<Rightarrow> Inr (Some value, c)
                  | Inr False \<Rightarrow> Inr (None, c(key := None))
                  | Inl (TypeError m) \<Rightarrow> Inr (None, c(key := None))
                  | Inl JSONDecodeError \<Rightarrow> Inr (None, c(key := None))
                  | Inl e \<Rightarrow> Inl e)
          | Some _ \<Rightarrow> Inl (AttributeError ''object has no attribute get''))"

section \<open>First-blood engine (\<^verbatim>\<open>hooks.on_solve_inserted\<close>)\<close>

text \<open>
  The hook runs after a row of \<^verbatim>\<open>solves\<close> has been inserted, on the connection of the
  inserting transaction. The relational store is a record of the three tables the
  hook reads and writes; the Redis cache is a fourth component. Everything outside the
  code decides through \<open>hook_env\<close>: the clock, the answer of \<^verbatim>\<open>GET_LOCK\<close>, and whether a
  statement or a cache call fails.
\<close>

record solve =
  solve_id :: int
  solve_challenge_id :: int
  solve_user_id :: int
  solve_team_id :: "int option"
  solve_date :: "int option"

record first_blood_prestige =
  fb_id :: int
  fb_solve_id :: int
  fb_challenge_id :: int
  fb_user_id :: "int option"
  fb_team_id :: "int option"
  fb_prestige_score :: int
  fb_timestamp :: int

record store =
  solves :: "solve list"
  challenges :: "(int \<times> int option) list"
  first_blood :: "first_blood_prestige list"
  redis :: cache

datatype lock_result =
    LockScalar "int option"
      \<comment> \<open>\<^verbatim>\<open>SELECT GET_LOCK(...)\<close> answered: 1 acquired, 0 timeout, NULL error\<close>
  | LockRaises error
      \<comment> \<open>the statement failed: the database has no \<^verbatim>\<open>GET_LOCK\<close>\<close>

record hook_env =
  utcnow :: int
  cache_get_fault :: "error option"
  get_lock :: lock_result
  select_first_blood_fault :: "error option"
  select_earlier_fault :: "error option"
  select_value_fault :: "error option"
  insert_fault :: "error option"
  cache_set_fault :: "error option"
  release_lock_fault :: "error option"

definition first_blood_key :: "int \<Rightarrow> string" where
  "first_blood_key challenge_id = ''phase2:first_blood_claimed:'' @ str_int challenge_id"

definition select_first_blood :: "store \<Rightarrow> int \<Rightarrow> first_blood_prestige option" where
  \<comment> \<open>\<^verbatim>\<open>SELECT id FROM phase2_first_blood_prestige WHERE challenge_id = :c LIMIT 1\<close>\<close>
  "select_first_blood st c = find (\<lambda>r. fb_challenge_id r = c) (first_blood st)"

definition earlier_than :: "int \<Rightarrow> int \<Rightarrow> int \<Rightarrow> solve \<Rightarrow> bool" where
  \<comment> \<open>the \<^verbatim>\<open>WHERE\<close> clause of the tie-break query; a NULL date satisfies no comparison\<close>
  "earlier_than c solve_timestamp user_id s =
     (solve_challenge_id s = c \<and>
      (case solve_date s of
         None \<Rightarrow> False
       | Some d \<Rightarrow> d < solve_timestamp \<or> (d = solve_timestamp \<and> solve_user_id s < user_id)))"

definition select_earlier_solve :: "store \<Rightarrow> int \<Rightarrow> int \<Rightarrow> int \<Rightarrow> solve option" where
  \<comment> \<open>the hook only tests whether a row came back, so the \<^verbatim>\<open>ORDER BY\<close> is not modelled\<close>
  "select_earlier_solve st c solve_timestamp user_id =
     find (earlier_than c solve_timestamp user_id) (solves st)"

definition select_challenge_value :: "store \<Rightarrow> int \<Rightarrow> int option option" where
  \<comment> \<open>\<^verbatim>\<open>SELECT value FROM challenges WHERE id = :id\<close>: no row, or a row with a value or NULL\<close>
  "select_challenge_value st c = map_of (challenges st) c"

definition next_fb_id :: "first_blood_prestige list \<Rightarrow> int" where
  "next_fb_id rows = 1 + fold max (map fb_id rows) 0"

definition insert_first_blood :: "store \<Rightarrow> first_blood_prestige \<Rightarrow> error + store" where
  \<comment> \<open>the \<^verbatim>\<open>INSERT\<close> under \<^verbatim>\<open>unique=True\<close> on \<^verbatim>\<open>solve_id\<close> and on \<^verbatim>\<open>challenge_id\<close>\<close>
  "insert_first_blood st row =
     (if list_ex (\<lambda>r. fb_solve_id r = fb_solve_id row) (first_blood st)
      then Inl (IntegrityError ''Duplicate entry for key solve_id'')
      else if list_ex (\<lambda>r. fb_challenge_id r = fb_challenge_id row) (first_blood st)
      then Inl (IntegrityError ''Duplicate entry for key challenge_id'')
      else Inr (st\<lparr>first_blood :=
                  first_blood st @ [row\<lparr>fb_id := next_fb_id (first_blood st)\<rparr>]\<rparr>))"

definition cache_set_hint ::
  "pylib \<Rightarrow> secret_config \<Rightarrow> hook_env \<Rightarrow> store \<Rightarrow> int \<Rightarrow> error + store" where
  \<comment> \<open>\<^verbatim>\<open>set_signed_cache(cache, redis_key, '1', timeout=...)\<close>\<close>
  "cache_set_hint L cfg env st c =
     (case cache_set_fault env of
        Some e \<Rightarrow> Inl e
      | None \<Rightarrow> Inr (st\<lparr>redis := set_signed_cache L cfg (redis st) (first_blood_key c) ''1''\<rparr>))"

definition set_hint_and_return ::
  "pylib \<Rightarrow> secret_config \<Rightarrow> hook_env \<Rightarrow> store \<Rightarrow> int \<Rightarrow> error option \<times> store" where
  "set_hint_and_return L cfg env st c =
     (case cache_set_hint L cfg env st c of Inl e \<Rightarrow> (Some e, st) | Inr st' \<Rightarrow> (None, st'))"

definition benign_insert_error :: "error \<Rightarrow> bool" where
  \<comment> \<open>\<^verbatim>\<open>'unique' in str(insert_error).lower() or 'duplicate' in str(insert_error).lower()\<close>\<close>
  "benign_insert_error e =
     (contains (lower (str_of_error e)) ''unique'' \<or> contains (lower (str_of_error e)) ''duplicate'')"

definition release_lock :: "hook_env \<Rightarrow> store \<Rightarrow> store" where
  \<comment> \<open>\<^verbatim>\<open>try: RELEASE_LOCK except: pass\<close>: a failure is swallowed and no table changes\<close>
  "release_lock env st = (case release_lock_fault env of None \<Rightarrow> st | Some e \<Rightarrow> st)"

definition insert_error_handler ::
  "pylib \<Rightarrow> secret_config \<Rightarrow> hook_env \<Rightarrow> store \<Rightarrow> int \<Rightarrow> error \<Rightarrow> error option \<times> store" where
  \<comment> \<open>\<^verbatim>\<open>except Exception as insert_error\<close> around the insert\<close>
  "insert_error_handler L cfg env st c e =
     (if benign_insert_error e
      then (case cache_set_hint L cfg env st c of
              Inl e' \<Rightarrow> (Some e', st)
            | Inr st' \<Rightarrow> (None, release_lock env st'))
      else (Some e, st))"

definition record_first_blood ::
  "pylib \<Rightarrow> secret_config \<Rightarrow> hook_env \<Rightarrow> store \<Rightarrow> solve \<Rightarrow> int \<Rightarrow> int \<Rightarrow> error option \<times> store" where
  \<comment> \<open>STEP 4 of the hook: the insert, the cache hint, the release of the lock\<close>
  "record_first_blood L cfg env st target solve_timestamp prestige =
     (let c = solve_challenge_id target;
          row = \<lparr> fb_id = 0, fb_solve_id = solve_id target, fb_challenge_id = c,
                  fb_user_id = Some (solve_user_id target), fb_team_id = solve_team_id target,
                  fb_prestige_score = prestige, fb_timestamp = solve_timestamp \<rparr>
      in case (case insert_fault env of Some e \<Rightarrow> Inl e | None \<Rightarrow> insert_first_blood st row) of
           Inl e \<Rightarrow> insert_error_handler L cfg env st c e
         | Inr st2 \<Rightarrow>
             (case cache_set_hint L cfg env st2 c of
                Inl e \<Rightarrow> insert_error_handler L cfg env st2 c e
              | Inr st3 \<Rightarrow> (None, release_lock env st3)))"

definition decide_first_blood ::
  "pylib \<Rightarrow> secret_config \<Rightarrow> hook_env \<Rightarrow> store \<Rightarrow> solve \<Rightarrow> error option \<times> store" where
  \<comment> \<open>STEP 2 and STEP 3 of the hook, after the lock\<close>
  "decide_first_blood L cfg env st target =
     (let c = solve_challenge_id target;
          user_id = solve_user_id target;
          solve_timestamp = (case solve_date target of Some d \<Rightarrow> d | None \<Rightarrow> utcnow env)
      in case select_first_blood_fault env of
           Some e \<Rightarrow> (Some e, st)
         | None \<Rightarrow>
            (case select_first_blood st c of
               Some existing_fb_record \<Rightarrow> set_hint_and_return L cfg env st c
             | None \<Rightarrow>
                (case select_earlier_fault env of
                   Some e \<Rightarrow> (Some e, st)
                 | None \<Rightarrow>
                    (case select_earlier_solve st c solve_timestamp user_id of
                       Some existing_earlier_solve \<Rightarrow> set_hint_and_return L cfg env st c
                     | None \<Rightarrow>
                        (case select_value_fault env of
                           Some e \<Rightarrow> (Some e, st)
                         | None \<Rightarrow>
                            (let challenge_value =
                                   (case select_challenge_value st c of
                                      Some v \<Rightarrow> v
                                    | None \<Rightarrow> Some 100);
                                 prestige = calculate_prestige_score challenge_value
                             in record_first_blood L cfg env st target
                                  solve_timestamp prestige))))))"

definition first_blood_body ::
  "pylib \<Rightarrow> secret_config \<Rightarrow> hook_env \<Rightarrow> store \<Rightarrow> solve \<Rightarrow> error option \<times> store" where
  \<comment> \<open>the body of the outer \<^verbatim>\<open>try\<close>: the exception it ends with, if any, and the store
      at that moment. The hint read from the cache is bound and never used.\<close>
  "first_blood_body L cfg env st target =
     (case (case cache_get_fault env of
              Some e \<Rightarrow> Inl e
            | None \<Rightarrow> get_signed_cache L cfg (redis st) (first_blood_key (solve_challenge_id target))) of
        Inl e \<Rightarrow> (Some e, st)
      | Inr (cached_hint, c1) \<Rightarrow>
          (let st1 = st\<lparr>redis := c1\<rparr>
           in case get_lock env of
                LockScalar lock_result \<Rightarrow>
                  if lock_result \<noteq> Some 1 then (None, st1)
                  else decide_first_blood L cfg env st1 target
              | LockRaises lock_error \<Rightarrow> decide_first_blood L cfg env st1 target))"

definition on_solve_inserted ::
  "bool \<Rightarrow> pylib \<Rightarrow> secret_config \<Rightarrow> hook_env \<Rightarrow> store \<Rightarrow> solve \<Rightarrow> error + store" where
  \<comment> \<open>the first argument is \<^verbatim>\<open>Phase2Config.FIRST_BLOOD_ENABLED\<close>; \<open>Inl\<close> would be an
      exception reaching the caller. \<^verbatim>\<open>except Exception as e\<close> prints and returns.\<close>
  "on_solve_inserted FIRST_BLOOD_ENABLED L cfg env st target =
     (if \<not> FIRST_BLOOD_ENABLED then Inr st
      else case first_blood_body L cfg env st target of
             (None, st') \<Rightarrow> Inr st'
           | (Some e, st') \<Rightarrow> Inr st')"

subsection \<open>Schedules of insertions and engine runs\<close>

text \<open>
  A schedule is a list of operations on one store: a solve row is inserted, or the
  engine runs for a solve that was inserted and has not been processed yet. One flush
  of several solves is the schedule of all insertions followed by all engine runs;
  separate transactions alternate them. The second component of the state lists the
  solves whose hook has not run yet. A schedule that inserts an existing primary key or
  runs the engine for a solve that is not pending is no schedule (\<open>None\<close>).
\<close>

datatype op = InsertSolve solve | Engine hook_env solve

fun run_ops ::
  "bool \<Rightarrow> pylib \<Rightarrow> secret_config \<Rightarrow> op list \<Rightarrow> store \<times> solve list
     \<Rightarrow> (store \<times> solve list) option" where
  "run_ops en L cfg [] (st, pending) = Some (st, pending)"
| "run_ops en L cfg (InsertSolve s # ops) (st, pending) =
     (if solve_id s \<in> set (map solve_id (solves st)) then None
      else run_ops en L cfg ops (st\<lparr>solves := solves st @ [s]\<rparr>, pending @ [s]))"
| "run_ops en L cfg (Engine env s # ops) (st, pending) =
     (if s \<notin> set pending then None
      else case on_solve_inserted en L cfg env st s of
             Inl e \<Rightarrow> None
           | Inr st' \<Rightarrow> run_ops en L cfg ops (st', removeAll s pending))"

definition env_ok :: "hook_env \<Rightarrow> bool" where
  \<comment> \<open>no statement or cache call fails, and the lock is acquired or not supported\<close>
  "env_ok env =
     (cache_get_fault env = None \<and> select_first_blood_fault env = None
      \<and> select_earlier_fault env = None \<and> select_value_fault env = None
      \<and> insert_fault env = None \<and> cache_set_fault env = None
      \<and> (case get_lock env of LockScalar r \<Rightarrow> r = Some 1 | LockRaises e \<Rightarrow> True))"

fun op_ok :: "op \<Rightarrow> bool" where
  "op_ok (InsertSolve s) = (solve_date s \<noteq> None)"
| "op_ok (Engine env s) = env_ok env"

definition hint_codec_ok :: "pylib \<Rightarrow> secret_config \<Rightarrow> bool" where
  \<comment> \<open>\<^verbatim>\<open>json.loads\<close> reads back the document that \<^verbatim>\<open>set_signed_cache\<close> writes for the
      value \<^verbatim>\<open>'1'\<close>\<close>
  "hint_codec_ok L cfg =
     (json_loads L (json_dumps L (signed_document L cfg ''1''))
        = Some (signed_document L cfg ''1''))"

definition entry_readable :: "pylib \<Rightarrow> secret_config \<Rightarrow> string option \<Rightarrow> bool" where
  \<comment> \<open>the cache entries on which \<open>get_signed_cache\<close> returns instead of raising\<close>
  "entry_readable L cfg entry =
     (case entry of
        None \<Rightarrow> True
      | Some d \<Rightarrow>
          d = [] \<or>
          (case json_loads L d of
             None \<Rightarrow> True
           | Some (JObj kvs) \<Rightarrow>
               \<not> json_truthy (dict_get kvs ''signature'')
               \<or> (case dict_get kvs ''value'' of JStr v \<Rightarrow> True | _ \<Rightarrow> False)
           | Some _ \<Rightarrow> False))"

definition cache_readable :: "pylib \<Rightarrow> secret_config \<Rightarrow> cache \<Rightarrow> bool" where
  "cache_readable L cfg c = (\<forall>key. entry_readable L cfg (c key))"

definition first_blood_of :: "store \<Rightarrow> int \<Rightarrow> first_blood_prestige list" where
  \<comment> \<open>the first-blood rows of one challenge\<close>
  "first_blood_of st c = filter (\<lambda>r. fb_challenge_id r = c) (first_blood st)"

definition store_consistent :: "store \<Rightarrow> bool" where
  \<comment> \<open>primary key of \<^verbatim>\<open>solves\<close>, and every first-blood row belongs to a stored solve of
      its challenge (the two foreign keys)\<close>
  "store_consistent st =
     (distinct (map solve_id (solves st)) \<and>
      (\<forall>r \<in> set (first_blood st). \<exists>s \<in> set (solves st).
          solve_id s = fb_solve_id r \<and> solve_challenge_id s = fb_challenge_id r))"

definition precedes :: "solve \<Rightarrow> solve \<Rightarrow> bool" where
  \<comment> \<open>the tie-break order: \<open>e\<close> is a row the query of the engine run for \<open>s\<close> returns\<close>
  "precedes e s =
     (case solve_date s of
        None \<Rightarrow> False
      | Some ts \<Rightarrow> earlier_than (solve_challenge_id s) ts (solve_user_id s) e)"

subsection \<open>Auxiliary notions for the proofs\<close>

definition run_inv :: "pylib \<Rightarrow> secret_config \<Rightarrow> int \<Rightarrow> store \<times> solve list \<Rightarrow> bool" where
  "run_inv L cfg c \<sigma> =
     (case \<sigma> of (st, pending) \<Rightarrow>
        store_consistent st \<and> set pending \<subseteq> set (solves st)
        \<and> cache_readable L cfg (redis st)
        \<and> (\<forall>s \<in> set (solves st). solve_challenge_id s = c \<longrightarrow> solve_date s \<noteq> None)
        \<and> (first_blood_of st c = [] \<longrightarrow>
             (\<forall>s \<in> set (solves st).
                solve_challenge_id s = c \<and> (\<forall>e \<in> set (solves st). \<not> precedes e s)
                \<longrightarrow> s \<in> set pending)))"


definition fb_step :: "store \<Rightarrow> store \<Rightarrow> solve \<Rightarrow> bool" where
  "fb_step st st' target =
     (solves st' = solves st \<and> challenges st' = challenges st \<and>
      (first_blood st' = first_blood st \<or>
       (\<exists>r. first_blood st' = first_blood st @ [r]
           \<and> fb_challenge_id r = solve_challenge_id target
           \<and> fb_solve_id r = solve_id target
           \<and> fb_user_id r = Some (solve_user_id target)
           \<and> (\<forall>x \<in> set (first_blood st).
                 fb_challenge_id x \<noteq> solve_challenge_id target \<and> fb_solve_id x \<noteq> solve_id target))))"

definition new_row :: "hook_env \<Rightarrow> store \<Rightarrow> solve \<Rightarrow> first_blood_prestige" where
  "new_row env st target =
     \<lparr> fb_id = next_fb_id (first_blood st), fb_solve_id = solve_id target,
       fb_challenge_id = solve_challenge_id target,
       fb_user_id = Some (solve_user_id target), fb_team_id = solve_team_id target,
       fb_prestige_score =
         calculate_prestige_score
           (case select_challenge_value st (solve_challenge_id target) of
              Some v \<Rightarrow> v | None \<Rightarrow> Some 100),
       fb_timestamp = (case solve_date target of Some d \<Rightarrow> d | None \<Rightarrow> utcnow env) \<rparr>"

definition awarded :: "hook_env \<Rightarrow> store \<Rightarrow> solve \<Rightarrow> bool" where
  "awarded env st target =
     (select_first_blood st (solve_challenge_id target) = None
      \<and> select_earlier_solve st (solve_challenge_id target)
           (case solve_date target of Some d \<Rightarrow> d | None \<Rightarrow> utcnow env) (solve_user_id target) = None
      \<and> \<not> list_ex (\<lambda>r. fb_solve_id r = solve_id target) (first_blood st))"

section \<open>Evidence sanitiser (\<^verbatim>\<open>utils.py\<close>, PII sanitisation)\<close>

text \<open>
  Evidence is a Python \<^verbatim>\<open>dict\<close> from field names to values; the model keeps its items
  in insertion order. A value is \<^verbatim>\<open>None\<close>, a string, an integer or a float; a float is
  carried as the real number it stands for (the sanitiser only passes floats through).
\<close>

datatype pyval = PNone | PStr string | PInt int | PFloat real

fun truthy :: "pyval \<Rightarrow> bool" where
  "truthy PNone = False"
| "truthy (PStr s) = (s \<noteq> [])"
| "truthy (PInt i) = (i \<noteq> 0)"
| "truthy (PFloat x) = (x \<noteq> 0)"

type_synonym evidence = "(string \<times> pyval) list"

definition dict_set :: "('k \<times> 'v) list \<Rightarrow> 'k \<Rightarrow> 'v \<Rightarrow> ('k \<times> 'v) list" where
  \<comment> \<open>\<^verbatim>\<open>d[k] = v\<close>: an existing key keeps its place, a new key goes last\<close>
  "dict_set d k v =
     (if k \<in> set (map fst d) then map (\<lambda>kv. if fst kv = k then (k, v) else kv) d
      else d @ [(k, v)])"

definition hash_ip :: "pylib \<Rightarrow> pyval \<Rightarrow> error + pyval" where
  \<comment> \<open>\<^verbatim>\<open>hashlib.sha256(ip_address.encode('utf-8')).hexdigest()[:16]\<close>\<close>
  "hash_ip L ip_address =
     (if \<not> truthy ip_address then Inr PNone
      else case ip_address of
             PStr ip \<Rightarrow> Inr (PStr (take 16 (sha256_hex L ip)))
           | _ \<Rightarrow> Inl (AttributeError ''object has no attribute encode''))"

definition browser_family :: "string \<Rightarrow> string" where
  "browser_family ua_lower =
     (if contains ua_lower ''chrome'' \<and> \<not> contains ua_lower ''edg'' then ''Chrome''
      else if contains ua_lower ''firefox'' then ''Firefox''
      else if contains ua_lower ''safari'' \<and> \<not> contains ua_lower ''chrome'' then ''Safari''
      else if contains ua_lower ''edg'' then ''Edge''
      else if contains ua_lower ''opera'' \<or> contains ua_lower ''opr'' then ''Opera''
      else if contains ua_lower ''msie'' \<or> contains ua_lower ''trident'' then ''Internet Explorer''
      else ''Unknown Browser'')"

definition os_family :: "string \<Rightarrow> string" where
  "os_family ua_lower =
     (if contains ua_lower ''windows'' then ''Windows''
      else if contains ua_lower ''mac'' \<and> \<not> contains ua_lower ''iphone''
              \<and> \<not> contains ua_lower ''ipad'' then ''macOS''
      else if contains ua_lower ''linux'' \<and> \<not> contains ua_lower ''android'' then ''Linux''
      else if contains ua_lower ''android'' then ''Android''
      else if contains ua_lower ''iphone'' \<or> contains ua_lower ''ipad'' then ''iOS''
      else ''Unknown OS'')"

definition generalize_user_agent :: "pyval \<Rightarrow> error + pyval" where
  "generalize_user_agent user_agent =
     (if \<not> truthy user_agent then Inr (PStr ''Unknown'')
      else case user_agent of
             PStr ua \<Rightarrow>
               Inr (PStr (browser_family (lower ua) @ '' on '' @ os_family (lower ua)))
           | _ \<Rightarrow> Inl (AttributeError ''object has no attribute lower''))"

fun sanitize_items :: "pylib \<Rightarrow> evidence \<Rightarrow> evidence \<Rightarrow> error + evidence" where
  \<comment> \<open>the loop \<^verbatim>\<open>for key, value in evidence.items()\<close>; the last argument is
      \<^verbatim>\<open>sanitized\<close>\<close>
  "sanitize_items L [] sanitized = Inr sanitized"
| "sanitize_items L ((key, value) # rest) sanitized =
     (if contains (lower key) ''ip'' \<and> truthy value
         \<and> key \<notin> set [''ip_hash'', ''ip_1_hash'', ''ip_2_hash'']
      then (case hash_ip L value of
              Inl e \<Rightarrow> Inl e
            | Inr h \<Rightarrow>
                sanitize_items L rest
                  (dict_set sanitized (if \<not> endswith key ''_hash'' then key @ ''_hash'' else key) h))
      else if contains (lower key) ''user_agent'' \<and> truthy value
      then (case generalize_user_agent value of
              Inl e \<Rightarrow> Inl e
            | Inr g \<Rightarrow>
                sanitize_items L rest
                  (dict_set sanitized (replace key ''user_agent'' ''browser_os'') g))
      else if contains (lower key) ''submission'' \<and> contains (lower key) ''text''
      then sanitize_items L rest (dict_set sanitized key (PStr ''[REDACTED]''))
      else sanitize_items L rest (dict_set sanitized key value))"

definition sanitize_evidence :: "pylib \<Rightarrow> evidence \<Rightarrow> error + evidence" where
  "sanitize_evidence L evidence = sanitize_items L evidence []"

subsection \<open>What sanitised evidence may contain\<close>

text \<open>
  An item of sanitised evidence is acceptable when its value is not a string, is the
  empty string, is the redaction marker, is a truncated SHA-256 digest stored under a
  key ending in \<^verbatim>\<open>_hash\<close>, or is a generalised browser-on-OS form stored under a
  \<^verbatim>\<open>browser_os\<close> key.
\<close>

definition browser_families :: "string list" where
  "browser_families =
     [''Chrome'', ''Firefox'', ''Safari'', ''Edge'', ''Opera'', ''Internet Explorer'',
      ''Unknown Browser'']"

definition os_families :: "string list" where
  "os_families = [''Windows'', ''macOS'', ''Linux'', ''Android'', ''iOS'', ''Unknown OS'']"

definition is_generalized :: "string \<Rightarrow> bool" where
  "is_generalized s =
     (s = ''Unknown'' \<or>
      list_ex (\<lambda>b. list_ex (\<lambda>os. s = b @ '' on '' @ os) os_families) browser_families)"

definition is_ip_hash :: "pylib \<Rightarrow> string \<Rightarrow> bool" where
  "is_ip_hash L s = (\<exists>raw. s = take 16 (sha256_hex L raw))"

definition sanitized_item :: "pylib \<Rightarrow> string \<times> pyval \<Rightarrow> bool" where
  "sanitized_item L kv =
     (case snd kv of
        PStr s \<Rightarrow>
          s = [] \<or> s = ''[REDACTED]''
          \<or> (endswith (fst kv) ''_hash'' \<and> is_ip_hash L s)
          \<or> (contains (fst kv) ''browser_os'' \<and> is_generalized s)
      | _ \<Rightarrow> True)"

definition pii_free :: "pylib \<Rightarrow> evidence \<Rightarrow> bool" where
  "pii_free L ev = list_all (sanitized_item L) ev"

section \<open>Pattern detection (\<^verbatim>\<open>detection.py\<close>)\<close>

record submission =
  sub_id :: int
  sub_user_id :: int
  sub_challenge_id :: int
  sub_ip :: "string option"
  sub_provided :: "string option"
  sub_type :: string
  sub_date :: int
  sub_user_agent :: "string option"
    \<comment> \<open>\<open>None\<close>: the column does not exist or is NULL\<close>

record pattern =
  user_id_1 :: int
  user_id_2 :: "int option"
  challenge_id :: int
  detection_type :: string
  confidence :: real
  pattern_evidence :: evidence

definition TEMPORAL_WINDOW_SECONDS :: real where "TEMPORAL_WINDOW_SECONDS = 60"
definition UA_SIMILARITY_THRESHOLD :: real where "UA_SIMILARITY_THRESHOLD = 95 / 100"
definition WEIGHT_SAME_IP :: real where "WEIGHT_SAME_IP = 4 / 10"
definition WEIGHT_DUPLICATE_WRONG :: real where "WEIGHT_DUPLICATE_WRONG = 3 / 10"
definition WEIGHT_SIMILAR_UA :: real where "WEIGHT_SIMILAR_UA = 2 / 10"
definition WEIGHT_TEMPORAL_PROXIMITY :: real where "WEIGHT_TEMPORAL_PROXIMITY = 1 / 10"

definition calculate_suspicion_confidence :: "string list \<Rightarrow> real" where
  "calculate_suspicion_confidence patterns =
     min ((if ''same_ip'' \<in> set patterns then WEIGHT_SAME_IP else 0)
          + (if ''duplicate_wrong'' \<in> set patterns then WEIGHT_DUPLICATE_WRONG else 0)
          + (if ''similar_ua'' \<in> set patterns then WEIGHT_SIMILAR_UA else 0)
          + (if ''temporal_proximity'' \<in> set patterns then WEIGHT_TEMPORAL_PROXIMITY else 0))
         1"

definition determine_risk_level :: "real \<Rightarrow> string" where
  "determine_risk_level c =
     (if c \<ge> 75 / 100 then ''HIGH'' else if c \<ge> 5 / 10 then ''MEDIUM'' else ''LOW'')"

definition time_delta_seconds :: "submission \<Rightarrow> submission \<Rightarrow> real" where
  \<comment> \<open>\<^verbatim>\<open>abs((sub2.date - sub1.date).total_seconds())\<close>\<close>
  "time_delta_seconds sub1 sub2 = \<bar>real_of_int (sub_date sub2 - sub_date sub1)\<bar> / 1000000"

definition opt_str :: "string option \<Rightarrow> pyval" where
  "opt_str x = (case x of None \<Rightarrow> PNone | Some s \<Rightarrow> PStr s)"

fun pairs :: "'a list \<Rightarrow> ('a \<times> 'a) list" where
  \<comment> \<open>\<^verbatim>\<open>for i in range(len(xs)): for j in range(i + 1, len(xs))\<close>\<close>
  "pairs [] = []"
| "pairs (x # xs) = map (Pair x) xs @ pairs xs"

fun group_add :: "('k \<times> 'a list) list \<Rightarrow> 'k \<Rightarrow> 'a \<Rightarrow> ('k \<times> 'a list) list" where
  \<comment> \<open>\<^verbatim>\<open>groups[k].append(x)\<close> on a \<^verbatim>\<open>defaultdict(list)\<close>\<close>
  "group_add [] k x = [(k, [x])]"
| "group_add ((k', xs) # g) k x =
     (if k' = k then (k', xs @ [x]) # g else (k', xs) # group_add g k x)"

fun collect :: "('a \<Rightarrow> error + 'b list) \<Rightarrow> 'a list \<Rightarrow> error + 'b list" where
  \<comment> \<open>a loop that appends to \<^verbatim>\<open>patterns\<close> and is left by the first exception\<close>
  "collect f [] = Inr []"
| "collect f (x # xs) =
     (case f x of
        Inl e \<Rightarrow> Inl e
      | Inr ys \<Rightarrow> (case collect f xs of Inl e \<Rightarrow> Inl e | Inr zs \<Rightarrow> Inr (ys @ zs)))"

definition same_ip_evidence :: "string \<Rightarrow> submission \<Rightarrow> submission \<Rightarrow> string \<Rightarrow> string \<Rightarrow> evidence" where
  "same_ip_evidence ip sub1 sub2 text1 text2 =
     [(''ip'', PStr ip),
      (''time_delta_seconds'', PFloat (time_delta_seconds sub1 sub2)),
      (''submission_1_id'', PInt (sub_id sub1)),
      (''submission_2_id'', PInt (sub_id sub2)),
      (''submission_1_text'', PStr (take 100 text1)),
      (''submission_2_text'', PStr (take 100 text2))]"

definition same_ip_pair :: "string \<Rightarrow> submission \<times> submission \<Rightarrow> error + pattern list" where
  \<comment> \<open>the body of the pair loop; \<^verbatim>\<open>sub.provided[:100]\<close> raises on \<^verbatim>\<open>None\<close>\<close>
  "same_ip_pair ip p =
     (case p of (sub1, sub2) \<Rightarrow>
        if sub_user_id sub1 = sub_user_id sub2 then Inr []
        else if time_delta_seconds sub1 sub2 \<le> TEMPORAL_WINDOW_SECONDS
        then (case (sub_provided sub1, sub_provided sub2) of
                (Some text1, Some text2) \<Rightarrow>
                  Inr [\<lparr> user_id_1 = sub_user_id sub1, user_id_2 = Some (sub_user_id sub2),
                         challenge_id = sub_challenge_id sub1, detection_type = ''same_ip'',
                         confidence =
                           calculate_suspicion_confidence [''same_ip'', ''temporal_proximity''],
                         pattern_evidence = same_ip_evidence ip sub1 sub2 text1 text2 \<rparr>]
              | _ \<Rightarrow> Inl (TypeError ''NoneType object is not subscriptable''))
        else Inr [])"

definition ip_groups :: "submission list \<Rightarrow> (string \<times> submission list) list" where
  "ip_groups submissions =
     foldl (\<lambda>g sub. case sub_ip sub of
                       None \<Rightarrow> g
                     | Some ip \<Rightarrow> if ip = [] then g else group_add g ip sub)
       [] submissions"

definition detect_same_ip_pattern :: "submission list \<Rightarrow> error + pattern list" where
  "detect_same_ip_pattern submissions =
     collect (\<lambda>g. case g of (ip, subs) \<Rightarrow>
                if length subs < 2 then Inr [] else collect (same_ip_pair ip) (pairs subs))
       (ip_groups submissions)"

definition is_space :: "char \<Rightarrow> bool" where
  "is_space c = (c \<in> set [CHR '' '', CHR 0x09, CHR 0x0A, CHR 0x0B, CHR 0x0C, CHR 0x0D])"

definition strip :: "string \<Rightarrow> string" where
  "strip s = rev (dropWhile is_space (rev (dropWhile is_space s)))"

definition duplicate_wrong_evidence :: "string \<Rightarrow> submission \<Rightarrow> submission \<Rightarrow> evidence" where
  "duplicate_wrong_evidence text sub1 sub2 =
     [(''submission_text'', PStr (take 200 text)),
      (''time_delta_seconds'', PFloat (time_delta_seconds sub1 sub2)),
      (''submission_1_id'', PInt (sub_id sub1)),
      (''submission_2_id'', PInt (sub_id sub2)),
      (''ip_1'', opt_str (sub_ip sub1)),
      (''ip_2'', opt_str (sub_ip sub2))]"

definition duplicate_wrong_pair :: "string \<Rightarrow> submission \<times> submission \<Rightarrow> pattern list" where
  "duplicate_wrong_pair text p =
     (case p of (sub1, sub2) \<Rightarrow>
        if sub_user_id sub1 = sub_user_id sub2 then []
        else [\<lparr> user_id_1 = sub_user_id sub1, user_id_2 = Some (sub_user_id sub2),
                challenge_id = sub_challenge_id sub1, detection_type = ''duplicate_wrong'',
                confidence =
                  calculate_suspicion_confidence
                    (''duplicate_wrong'' #
                       (if time_delta_seconds sub1 sub2 \<le> TEMPORAL_WINDOW_SECONDS
                        then [''temporal_proximity''] else [])),
                pattern_evidence = duplicate_wrong_evidence text sub1 sub2 \<rparr>])"

definition text_groups :: "submission list \<Rightarrow> (string \<times> submission list) list" where
  "text_groups wrong_submissions =
     foldl (\<lambda>g sub. case sub_provided sub of
                       None \<Rightarrow> g
                     | Some provided \<Rightarrow>
                         if provided = [] then g else group_add g (lower (strip provided)) sub)
       [] wrong_submissions"

definition detect_duplicate_wrong_pattern :: "submission list \<Rightarrow> pattern list" where
  "detect_duplicate_wrong_pattern submissions =
     (let wrong_submissions = filter (\<lambda>s. sub_type s \<noteq> ''correct'') submissions
      in if length wrong_submissions < 2 then []
         else concat (map (\<lambda>g. case g of (text, subs) \<Rightarrow>
                              if length subs < 2 then []
                              else concat (map (duplicate_wrong_pair text) (pairs subs)))
                        (text_groups wrong_submissions)))"

fun lev_row :: "char \<Rightarrow> string \<Rightarrow> nat list \<Rightarrow> nat \<Rightarrow> nat list" where
  \<comment> \<open>the inner loop of \<^verbatim>\<open>levenshtein_ratio\<close>: the cells \<open>1..len1\<close> of \<^verbatim>\<open>current_row\<close> from
      \<^verbatim>\<open>previous_row\<close> and the cell to the left\<close>
  "lev_row c (a # s1) (p0 # p1 # prev) left =
     (let v = min (min (p1 + 1) (left + 1)) (p0 + (if a \<noteq> c then 1 else 0))
      in v # lev_row c s1 (p1 # prev) v)"
| "lev_row c s1 prev left = []"

fun lev_rows :: "string \<Rightarrow> string \<Rightarrow> nat \<Rightarrow> nat list \<Rightarrow> nat list" where
  \<comment> \<open>the outer loop over the characters of the longer string, numbered from \<open>i\<close>\<close>
  "lev_rows s1 [] i current_row = current_row"
| "lev_rows s1 (c # s2) i current_row = lev_rows s1 s2 (i + 1) (i # lev_row c s1 current_row i)"

definition levenshtein_ratio :: "string \<Rightarrow> string \<Rightarrow> real" where
  \<comment> \<open>the ratio is computed in exact arithmetic; Python rounds it to a double\<close>
  "levenshtein_ratio a b =
     (if a = [] \<or> b = [] then 0
      else let s1 = lower a; s2 = lower b
           in if s1 = s2 then 1
              else let t1 = (if length s1 > length s2 then s2 else s1);
                       t2 = (if length s1 > length s2 then s1 else s2);
                       distance = last (lev_rows t1 t2 1 [0 ..< length t1 + 1]);
                       max_len = max (length t1) (length t2)
                   in if max_len > 0 then 1 - real distance / real max_len else 0)"

definition similar_ua_evidence :: "real \<Rightarrow> string \<Rightarrow> string \<Rightarrow> submission \<Rightarrow> submission \<Rightarrow> evidence" where
  "similar_ua_evidence similarity ua1 ua2 sub1 sub2 =
     [(''ua_similarity'', PFloat similarity),
      (''user_agent_1'', PStr (take 200 ua1)),
      (''user_agent_2'', PStr (take 200 ua2)),
      (''time_delta_seconds'', PFloat (time_delta_seconds sub1 sub2)),
      (''submission_1_id'', PInt (sub_id sub1)),
      (''submission_2_id'', PInt (sub_id sub2)),
      (''ip_1'', opt_str (sub_ip sub1)),
      (''ip_2'', opt_str (sub_ip sub2))]"

definition similar_ua_pair :: "submission \<times> submission \<Rightarrow> pattern list" where
  "similar_ua_pair p =
     (case p of (sub1, sub2) \<Rightarrow>
        (case (sub_user_agent sub1, sub_user_agent sub2) of
           (Some ua1, Some ua2) \<Rightarrow>
             if sub_user_id sub1 = sub_user_id sub2 then []
             else let similarity = levenshtein_ratio ua1 ua2
                  in if similarity \<ge> UA_SIMILARITY_THRESHOLD
                     then [\<lparr> user_id_1 = sub_user_id sub1, user_id_2 = Some (sub_user_id sub2),
                             challenge_id = sub_challenge_id sub1, detection_type = ''similar_ua'',
                             confidence =
                               calculate_suspicion_confidence
                                 (''similar_ua'' #
                                    (if time_delta_seconds sub1 sub2 \<le> TEMPORAL_WINDOW_SECONDS
                                     then [''temporal_proximity''] else [])
                                    @ (if sub_ip sub1 = sub_ip sub2 then [''same_ip''] else [])),
                             pattern_evidence = similar_ua_evidence similarity ua1 ua2 sub1 sub2 \<rparr>]
                     else []
         | _ \<Rightarrow> []))"

definition detect_similar_ua_pattern :: "submission list \<Rightarrow> pattern list" where
  "detect_similar_ua_pattern submissions =
     (let ua_submissions =
            filter (\<lambda>s. case sub_user_agent s of None \<Rightarrow> False | Some ua \<Rightarrow> ua \<noteq> []) submissions
      in if length ua_submissions < 2 then []
         else concat (map similar_ua_pair (pairs ua_submissions)))"

section \<open>Consent, suspicion records and verdicts (\<^verbatim>\<open>models.py\<close>, \<^verbatim>\<open>detection.py\<close>, \<^verbatim>\<open>api.py\<close>)\<close>

record user_consent =
  uc_user_id :: int
  consented :: bool
  consented_at :: "int option"
  withdrawn_at :: "int option"
  last_updated :: int

record suspicion =
  su_id :: int
  su_user_id_1 :: int
  su_user_id_2 :: "int option"
  su_challenge_id :: int
  su_detection_type :: string
  confidence_score :: real
  risk_level :: string
  su_evidence :: evidence
  admin_verdict :: "string option"
  reviewed_at :: "int option"
  reviewed_by :: "int option"
  su_created_at :: int

record verdict_entry =
  vh_id :: int
  vh_suspicion_id :: int
  vh_verdict :: string
  vh_reviewed_by :: "int option"
  vh_admin_ip :: "string option"
  vh_notes :: "string option"
  vh_created_at :: int

record review_db =
  consents :: "user_consent list"
  suspicions :: "suspicion list"
  verdict_history :: "verdict_entry list"

definition fresh_id :: "int list \<Rightarrow> int" where
  \<comment> \<open>the autoincrement primary key of the next row\<close>
  "fresh_id ids = 1 + fold max ids 0"

definition consent_of :: "review_db \<Rightarrow> int \<Rightarrow> user_consent option" where
  \<comment> \<open>\<^verbatim>\<open>UserConsent.query.filter_by(user_id=user_id).first()\<close>\<close>
  "consent_of db user_id = find (\<lambda>r. uc_user_id r = user_id) (consents db)"

definition has_consent :: "review_db \<Rightarrow> int \<Rightarrow> bool" where
  "has_consent db user_id =
     (case consent_of db user_id of None \<Rightarrow> False | Some consent \<Rightarrow> consented consent)"

fun update_first :: "('a \<Rightarrow> bool) \<Rightarrow> ('a \<Rightarrow> 'a) \<Rightarrow> 'a list \<Rightarrow> 'a list" where
  \<comment> \<open>attribute assignments on the row object that \<^verbatim>\<open>.first()\<close> returned\<close>
  "update_first P f [] = []"
| "update_first P f (x # xs) = (if P x then f x # xs else x # update_first P f xs)"

definition grant_consent :: "error option \<Rightarrow> int \<Rightarrow> int \<Rightarrow> review_db \<Rightarrow> error + review_db" where
  \<comment> \<open>the first argument is a failure of \<^verbatim>\<open>db.session.commit()\<close>, the second the clock\<close>
  "grant_consent commit_fault now user_id db =
     (case commit_fault of
        Some e \<Rightarrow> Inl e
      | None \<Rightarrow>
          (case consent_of db user_id of
             None \<Rightarrow>
               Inr (db\<lparr>consents := consents db @
                      [\<lparr> uc_user_id = user_id, consented = True, consented_at = Some now,
                         withdrawn_at = None, last_updated = now \<rparr>]\<rparr>)
           | Some consent \<Rightarrow>
               Inr (db\<lparr>consents :=
                      update_first (\<lambda>r. uc_user_id r = user_id)
                        (\<lambda>r. r\<lparr>consented := True, consented_at := Some now,
                                 withdrawn_at := None, last_updated := now\<rparr>)
                        (consents db)\<rparr>)))"

definition withdraw_consent :: "error option \<Rightarrow> int \<Rightarrow> int \<Rightarrow> review_db \<Rightarrow> error + review_db" where
  "withdraw_consent commit_fault now user_id db =
     (case commit_fault of
        Some e \<Rightarrow> Inl e
      | None \<Rightarrow>
          (case consent_of db user_id of
             None \<Rightarrow>
               Inr (db\<lparr>consents := consents db @
                      [\<lparr> uc_user_id = user_id, consented = False, consented_at = None,
                         withdrawn_at = Some now, last_updated = now \<rparr>]\<rparr>)
           | Some consent \<Rightarrow>
               Inr (db\<lparr>consents :=
                      update_first (\<lambda>r. uc_user_id r = user_id)
                        (\<lambda>r. r\<lparr>consented := False, withdrawn_at := Some now,
                                 last_updated := now\<rparr>)
                        (consents db)\<rparr>)))"

record create_env =
  created_now :: int
  consent_query_fault :: "error option"
  create_commit_fault :: "error option"

definition create_suspicion_body ::
  "pylib \<Rightarrow> create_env \<Rightarrow> review_db \<Rightarrow> pattern \<Rightarrow> error + (suspicion option \<times> review_db)" where
  \<comment> \<open>the \<^verbatim>\<open>try\<close> block of \<^verbatim>\<open>create_suspicion_record\<close>. \<^verbatim>\<open>if user_id_2:\<close> is false for
      \<^verbatim>\<open>None\<close> and for 0.\<close>
  "create_suspicion_body L env db p =
     (case consent_query_fault env of
        Some e \<Rightarrow> Inl e
      | None \<Rightarrow>
          (case consent_of db (user_id_1 p) of
             None \<Rightarrow> Inr (None, db)
           | Some consent_1 \<Rightarrow>
               if \<not> consented consent_1 then Inr (None, db)
               else if (case user_id_2 p of
                          None \<Rightarrow> False
                        | Some u2 \<Rightarrow>
                            u2 \<noteq> 0 \<and>
                            (case consent_of db u2 of
                               None \<Rightarrow> True
                             | Some consent_2 \<Rightarrow> \<not> consented consent_2))
               then Inr (None, db)
               else (case sanitize_evidence L (pattern_evidence p) of
                       Inl e \<Rightarrow> Inl e
                     | Inr sanitized_evidence \<Rightarrow>
                         (case create_commit_fault env of
                            Some e \<Rightarrow> Inl e
                          | None \<Rightarrow>
                              (let suspicion =
                                     \<lparr> su_id = fresh_id (map su_id (suspicions db)),
                                       su_user_id_1 = user_id_1 p,
                                       su_user_id_2 = user_id_2 p,
                                       su_challenge_id = challenge_id p,
                                       su_detection_type = detection_type p,
                                       confidence_score = confidence p,
                                       risk_level = determine_risk_level (confidence p),
                                       su_evidence = sanitized_evidence,
                                       admin_verdict = None, reviewed_at = None,
                                       reviewed_by = None,
                                       su_created_at = created_now env \<rparr>
                               in Inr (Some suspicion,
                                       db\<lparr>suspicions := suspicions db @ [suspicion]\<rparr>))))))"

definition create_suspicion_record ::
  "pylib \<Rightarrow> create_env \<Rightarrow> review_db \<Rightarrow> pattern \<Rightarrow> suspicion option \<times> review_db" where
  \<comment> \<open>\<^verbatim>\<open>except Exception: db.session.rollback(); return None\<close>\<close>
  "create_suspicion_record L env db p =
     (case create_suspicion_body L env db p of
        Inl e \<Rightarrow> (None, db)
      | Inr r \<Rightarrow> r)"

definition involved_users :: "pattern \<Rightarrow> int list" where
  \<comment> \<open>\<open>user_id_1\<close>, and \<open>user_id_2\<close> when present\<close>
  "involved_users p = user_id_1 p # (case user_id_2 p of None \<Rightarrow> [] | Some u2 \<Rightarrow> [u2])"

subsection \<open>The detection run\<close>

definition SUSPICION_THRESHOLD :: real where "SUSPICION_THRESHOLD = 75 / 100"
definition MAX_SUBMISSIONS :: nat where "MAX_SUBMISSIONS = 5000"

definition challenge_groups :: "submission list \<Rightarrow> (int \<times> submission list) list" where
  "challenge_groups recent = foldl (\<lambda>g sub. group_add g (sub_challenge_id sub) sub) [] recent"

definition patterns_of_challenge :: "submission list \<Rightarrow> error + pattern list" where
  \<comment> \<open>the three passes on the submissions of one challenge, in the order of the source\<close>
  "patterns_of_challenge submissions =
     (case detect_same_ip_pattern submissions of
        Inl e \<Rightarrow> Inl e
      | Inr same_ip \<Rightarrow>
          Inr (same_ip @ detect_duplicate_wrong_pattern submissions
                 @ detect_similar_ua_pattern submissions))"

fun create_all ::
  "pylib \<Rightarrow> real \<Rightarrow> create_env \<Rightarrow> pattern list \<Rightarrow> review_db \<Rightarrow> review_db" where
  \<comment> \<open>\<^verbatim>\<open>for pattern in patterns_found\<close>: records above the threshold are created, an
      exception of one creation is printed and the loop goes on\<close>
  "create_all L threshold env [] db = db"
| "create_all L threshold env (p # ps) db =
     (if confidence p \<ge> threshold
      then create_all L threshold env ps (snd (create_suspicion_record L env db p))
      else create_all L threshold env ps db)"

fun analyse_challenges ::
  "pylib \<Rightarrow> real \<Rightarrow> create_env \<Rightarrow> (int \<times> submission list) list \<Rightarrow> review_db
     \<Rightarrow> error option \<times> review_db" where
  \<comment> \<open>\<^verbatim>\<open>for challenge_id, submissions in submissions_by_challenge.items()\<close>; an exception of
      a pass leaves the function, and the records committed so far stay\<close>
  "analyse_challenges L threshold env [] db = (None, db)"
| "analyse_challenges L threshold env ((c, submissions) # groups) db =
     (if length submissions < 2 then analyse_challenges L threshold env groups db
      else case patterns_of_challenge submissions of
             Inl e \<Rightarrow> (Some e, db)
           | Inr patterns_found \<Rightarrow>
               analyse_challenges L threshold env groups
                 (create_all L threshold env patterns_found db))"

definition detect_flag_sharing_patterns ::
  "bool \<Rightarrow> pylib \<Rightarrow> real \<Rightarrow> create_env \<Rightarrow> submission list \<Rightarrow> review_db
     \<Rightarrow> error option \<times> review_db" where
  \<comment> \<open>the first argument is \<^verbatim>\<open>SUSPICION_ENABLED\<close>, the third the configured threshold, the
      fifth the rows of the query, most recent first; the result is the exception that
      left the run, if any, and the store\<close>
  "detect_flag_sharing_patterns enabled L threshold env recent_submissions db =
     (if \<not> enabled then (None, db)
      else analyse_challenges L threshold env
             (challenge_groups (take MAX_SUBMISSIONS recent_submissions)) db)"

subsection \<open>Verdicts\<close>

definition record_verdict ::
  "error option \<Rightarrow> int \<Rightarrow> review_db \<Rightarrow> int \<Rightarrow> string \<Rightarrow> int \<Rightarrow> string option \<Rightarrow> string option
     \<Rightarrow> error + (verdict_entry \<times> review_db)" where
  \<comment> \<open>\<^verbatim>\<open>VerdictHistory.record_verdict\<close>: the first argument is a failure of the commit, the
      second the clock read for \<^verbatim>\<open>created_at\<close>\<close>
  "record_verdict commit_fault now db suspicion_id verdict admin_id admin_ip notes =
     (case commit_fault of
        Some e \<Rightarrow> Inl e
      | None \<Rightarrow>
          (let entry = \<lparr> vh_id = fresh_id (map vh_id (verdict_history db)),
                         vh_suspicion_id = suspicion_id, vh_verdict = verdict,
                         vh_reviewed_by = Some admin_id, vh_admin_ip = admin_ip,
                         vh_notes = notes, vh_created_at = now \<rparr>
           in Inr (entry, db\<lparr>verdict_history := verdict_history db @ [entry]\<rparr>)))"

record review_env =
  SUSPICION_ENABLED :: bool
  admin_user_id :: int
  remote_addr :: "string option"
  audit_now :: int
  review_now :: int
  lookup_fault :: "error option"
  audit_commit_fault :: "error option"
  update_commit_fault :: "error option"

record review_request =
  req_verdict :: json
  req_notes :: "string option"

record review_response =
  status_code :: int
  success :: bool
  audit_entry_id :: "int option"
  response_reviewed_at :: "int option"

definition failure :: "int \<Rightarrow> review_response" where
  "failure code = \<lparr> status_code = code, success = False, audit_entry_id = None,
                    response_reviewed_at = None \<rparr>"

definition review_put ::
  "review_env \<Rightarrow> review_db \<Rightarrow> int \<Rightarrow> review_request \<Rightarrow> review_response \<times> review_db" where
  \<comment> \<open>\<^verbatim>\<open>SuspiciousActivityReview.put\<close>. The audit entry is committed by \<^verbatim>\<open>record_verdict\<close>
      before the convenience fields are set; an exception rolls back what is not
      committed and answers 500.\<close>
  "review_put env db suspicion_id req =
     (if \<not> SUSPICION_ENABLED env then (failure 404, db)
      else case req_verdict req of
        JStr verdict \<Rightarrow>
          if verdict \<notin> set [''innocent'', ''suspicious'', ''confirmed''] then (failure 400, db)
          else (case lookup_fault env of
                  Some e \<Rightarrow> (failure 500, db)
                | None \<Rightarrow>
                   (case find (\<lambda>f. su_id f = suspicion_id) (suspicions db) of
                      None \<Rightarrow> (failure 404, db)
                    | Some suspicion \<Rightarrow>
                       (case record_verdict (audit_commit_fault env) (audit_now env) db
                               suspicion_id verdict (admin_user_id env) (remote_addr env)
                               (req_notes req) of
                          Inl e \<Rightarrow> (failure 500, db)
                        | Inr (audit_entry, db1) \<Rightarrow>
                           (case update_commit_fault env of
                              Some e \<Rightarrow> (failure 500, db1)
                            | None \<Rightarrow>
                               (\<lparr> status_code = 200, success = True,
                                   audit_entry_id = Some (vh_id audit_entry),
                                   response_reviewed_at = Some (review_now env) \<rparr>,
                                db1\<lparr>suspicions :=
                                      update_first (\<lambda>f. su_id f = suspicion_id)
                                        (\<lambda>f. f\<lparr>admin_verdict := Some verdict,
                                                 reviewed_at := Some (review_now env),
                                                 reviewed_by := Some (admin_user_id env)\<rparr>)
                                        (suspicions db1)\<rparr>)))))
      | _ \<Rightarrow> (failure 400, db))"

section \<open>A concrete library instance\<close>

text \<open>
  Closed instances of the theorems need one concrete library. \<open>json_text\<close> writes a
  document the way \<^verbatim>\<open>json.dumps\<close> does (separators \<^verbatim>\<open>", "\<close> and \<^verbatim>\<open>": "\<close>, the
  escapes of the quote and the backslash); \<open>loads_among docs\<close> decodes exactly the
  texts of the documents \<open>docs\<close> and rejects every other text; \<open>digest64\<close> stands in
  for the two digests, with the length and alphabet of a SHA-256 hex digest. None of
  the general theorems depends on this instance.
\<close>

fun join :: "string \<Rightarrow> string list \<Rightarrow> string" where
  "join sep [] = []"
| "join sep [x] = x"
| "join sep (x # y # ys) = x @ sep @ join sep (y # ys)"

definition json_quote :: "string \<Rightarrow> string" where
  "json_quote s =
     CHR 0x22 # concat (map (\<lambda>c. if c = CHR 0x22 \<or> c = CHR 0x5C then [CHR 0x5C, c] else [c]) s)
       @ [CHR 0x22]"

fun json_text :: "json \<Rightarrow> string" where
  "json_text JNull = ''null''"
| "json_text (JBool b) = (if b then ''true'' else ''false'')"
| "json_text (JNum n) = str_int n"
| "json_text (JStr s) = json_quote s"
| "json_text (JArr xs) = ''['' @ join '', '' (map json_text xs) @ '']''"
| "json_text (JObj kvs) =
     ''{'' @ join '', '' (map (\<lambda>kv. json_quote (fst kv) @ '': '' @ json_text (snd kv)) kvs) @ ''}''"

definition loads_among :: "json list \<Rightarrow> string \<Rightarrow> json option" where
  "loads_among docs s = find (\<lambda>d. json_text d = s) docs"

definition digest64 :: "string \<Rightarrow> string" where
  "digest64 s = replicate 64 (hex_digit (sum_list (map of_char s) + length s))"

definition example_lib :: "json list \<Rightarrow> pylib" where
  "example_lib docs =
     \<lparr> hmac_sha256_hex = (\<lambda>key msg. digest64 (key @ CHR '':'' # msg)),
       sha256_hex = digest64,
       json_dumps = json_text,
       json_loads = loads_among docs \<rparr>"

definition example_secret :: secret_config where
  "example_secret = \<lparr> env_PHASE2_HMAC_SECRET = None, app_SECRET_KEY = Some ''s3cr3t'' \<rparr>"

definition db_of :: "store \<Rightarrow> solve list \<times> (int \<times> int option) list \<times> first_blood_prestige list" where
  "db_of st = (solves st, challenges st, first_blood st)"

definition same_db :: "error option \<times> store \<Rightarrow> error option \<times> store \<Rightarrow> bool" where
  "same_db a b = (fst a = fst b \<and> db_of (snd a) = db_of (snd b))"



definition ip_item :: "pylib \<Rightarrow> string \<Rightarrow> string option \<Rightarrow> string \<times> pyval" where
  "ip_item L k ip =
     (case ip of
        None \<Rightarrow> (k, PNone)
      | Some s \<Rightarrow> if s = [] then (k, PStr []) else (k @ ''_hash'', PStr (take 16 (sha256_hex L s))))"

definition pass_evidence :: "evidence \<Rightarrow> bool" where
  "pass_evidence ev =
     ((\<exists>ip sub1 sub2 text1 text2. ip \<noteq> [] \<and> ev = same_ip_evidence ip sub1 sub2 text1 text2)
      \<or> (\<exists>text sub1 sub2. ev = duplicate_wrong_evidence text sub1 sub2)
      \<or> (\<exists>similarity ua1 ua2 sub1 sub2.
            ua1 \<noteq> [] \<and> ua2 \<noteq> [] \<and> ev = similar_ua_evidence similarity ua1 ua2 sub1 sub2))"

definition only_sanitized :: "pylib \<Rightarrow> review_db \<Rightarrow> review_db \<Rightarrow> bool" where
  "only_sanitized L db db' =
     (\<forall>f \<in> set (suspicions db'). f \<in> set (suspicions db) \<or> pii_free L (su_evidence f))"

subsection \<open>Example data\<close>

text \<open>
  Concrete environments, solves of challenge 3 and an empty store, for the closed
  instances below. \<open>winners\<close> runs a schedule from a store with nothing pending and
  returns the user ids of the first-blood rows of a challenge.
\<close>

definition env_acquired :: hook_env where
  "env_acquired =
     \<lparr> utcnow = 0, cache_get_fault = None, get_lock = LockScalar (Some 1),
       select_first_blood_fault = None, select_earlier_fault = None, select_value_fault = None,
       insert_fault = None, cache_set_fault = None, release_lock_fault = None \<rparr>"

definition env_lock_timeout :: hook_env where
  "env_lock_timeout = env_acquired\<lparr>get_lock := LockScalar (Some 0)\<rparr>"

definition hint_lib :: pylib where
  "hint_lib = example_lib [signed_document (example_lib []) example_secret ''1'']"

definition solve_of :: "int \<Rightarrow> int \<Rightarrow> int \<Rightarrow> solve" where
  "solve_of sid user date =
     \<lparr> solve_id = sid, solve_challenge_id = 3, solve_user_id = user, solve_team_id = None,
       solve_date = Some date \<rparr>"

definition store3 :: store where
  "store3 = \<lparr> solves = [], challenges = [(3, Some 500)], first_blood = [], redis = Map.empty \<rparr>"

definition winners ::
  "bool \<Rightarrow> pylib \<Rightarrow> secret_config \<Rightarrow> op list \<Rightarrow> store \<Rightarrow> int \<Rightarrow> (int option) list option" where
  "winners en L cfg ops st c =
     (case run_ops en L cfg ops (st, []) of
        None \<Rightarrow> None
      | Some (st', pending') \<Rightarrow> Some (map fb_user_id (first_blood_of st' c)))"

definition store3_hinted :: store where
  "store3_hinted =
     store3\<lparr>redis := set_signed_cache hint_lib example_secret Map.empty (first_blood_key 3) ''1''\<rparr>"

definition consent_row :: "int \<Rightarrow> bool \<Rightarrow> user_consent" where
  "consent_row u c =
     \<lparr> uc_user_id = u, consented = c, consented_at = (if c then Some 1 else None),
       withdrawn_at = None, last_updated = 1 \<rparr>"

definition finding1 :: suspicion where
  "finding1 =
     \<lparr> su_id = 1, su_user_id_1 = 2, su_user_id_2 = Some 3, su_challenge_id = 2,
       su_detection_type = ''same_ip'', confidence_score = 85 / 100, risk_level = ''HIGH'',
       su_evidence = [(''ip_hash'', PStr ''test123''), (''time_delta_ms'', PInt 500)],
       admin_verdict = None, reviewed_at = None, reviewed_by = None, su_created_at = 5 \<rparr>"

definition review_db1 :: review_db where
  "review_db1 =
     \<lparr> consents = [consent_row 2 True, consent_row 3 True], suspicions = [finding1],
       verdict_history = [] \<rparr>"


definition pattern23 :: pattern where
  "pattern23 =
     \<lparr> user_id_1 = 2, user_id_2 = Some 3, challenge_id = 1, detection_type = ''same_ip'',
       confidence = 5 / 10,
       pattern_evidence = [(''ip'', PStr ''192.168.1.10''), (''submission_1_text'', PStr ''flag{x}'')] \<rparr>"

definition create_env0 :: create_env where
  "create_env0 = \<lparr> created_now = 7, consent_query_fault = None, create_commit_fault = None \<rparr>"

definition chrome_ua :: string where
  "chrome_ua = ''Mozilla/5.0 (Windows NT 10.0; Win64; x64) Chrome/119.0.0.0''"

definition submission_of :: "int \<Rightarrow> int \<Rightarrow> int \<Rightarrow> submission" where
  "submission_of sid user date =
     \<lparr> sub_id = sid, sub_user_id = user, sub_challenge_id = 1, sub_ip = Some ''10.0.0.7'',
       sub_provided = Some ''flag{guess}'', sub_type = ''incorrect'', sub_date = date,
       sub_user_agent = Some chrome_ua \<rparr>"

definition review_db2 :: review_db where
  "review_db2 =
     \<lparr> consents = [consent_row 2 True, consent_row 3 True], suspicions = [],
       verdict_history = [] \<rparr>"

section \<open>Lemmas\<close>

subsection \<open>Signed cache\<close>

lemma digest64_nonempty: "digest64 s \<noteq> []"
  by (simp add: digest64_def)

lemma hex_digit_ascii: "(of_char (hex_digit n) :: nat) < 128"
proof -
  have "hex_digit n \<in> set ''0123456789abcdef''"
    unfolding hex_digit_def by (rule nth_mem) simp
  then show ?thesis by auto
qed

lemma digest64_ascii: "is_ascii (digest64 s)"
  by (simp add: digest64_def is_ascii_def list_all_iff hex_digit_ascii)

lemma verify_redis_signature_cases:
  assumes "\<not> json_truthy sg \<or> (\<exists>v. val = JStr v)"
  shows "(\<exists>b. verify_redis_signature L cfg val sg = Inr b)
       \<or> (\<exists>m. verify_redis_signature L cfg val sg = Inl (TypeError m))"
proof (cases "json_truthy sg")
  case False
  then show ?thesis by (auto simp: verify_redis_signature_def)
next
  case True
  with assms obtain v where v: "val = JStr v" by auto
  show ?thesis
  proof (cases "\<exists>s. sg = JStr s \<and> is_ascii (sign_redis_value L cfg v) \<and> is_ascii s")
    case True
    then show ?thesis
      using \<open>json_truthy sg\<close> v
      by (auto simp: verify_redis_signature_def compare_digest_def)
  next
    case False
    then have "\<exists>m. compare_digest (sign_redis_value L cfg v) sg = Inl (TypeError m)"
      by (cases sg) (auto simp: compare_digest_def)
    then show ?thesis
      using \<open>json_truthy sg\<close> v by (simp add: verify_redis_signature_def)
  qed
qed

lemma get_signed_cache_object:
  assumes "c key = Some d" and "d \<noteq> []" and "json_loads L d = Some (JObj kvs)"
  shows "get_signed_cache L cfg c key =
     (case verify_redis_signature L cfg (dict_get kvs ''value'') (dict_get kvs ''signature'') of
        Inr True \<Rightarrow> Inr (Some (dict_get kvs ''value''), c)
      | Inr False \<Rightarrow> Inr (None, c(key := None))
      | Inl (TypeError m) \<Rightarrow> Inr (None, c(key := None))
      | Inl JSONDecodeError \<Rightarrow> Inr (None, c(key := None))
      | Inl e \<Rightarrow> Inl e)"
  using assms by (simp add: get_signed_cache_def Let_def)

lemma get_signed_cache_readable:
  assumes "entry_readable L cfg (c key)"
  shows "\<exists>v. get_signed_cache L cfg c key = Inr (v, c) \<or> get_signed_cache L cfg c key = Inr (v, c(key := None))"
proof (cases "c key")
  case None
  then show ?thesis by (auto simp: get_signed_cache_def)
next
  case (Some d)
  show ?thesis
  proof (cases "d = []")
    case True
    with Some show ?thesis by (auto simp: get_signed_cache_def)
  next
    case False
    show ?thesis
    proof (cases "json_loads L d")
      case None
      with \<open>c key = Some d\<close> False show ?thesis by (auto simp: get_signed_cache_def)
    next
      case (Some j)
      with assms \<open>c key = Some d\<close> False obtain kvs where
        j: "j = JObj kvs"
        and ok: "\<not> json_truthy (dict_get kvs ''signature'') \<or> (\<exists>v. dict_get kvs ''value'' = JStr v)"
        by (cases j) (auto simp: entry_readable_def split: json.splits)
      have "json_loads L d = Some (JObj kvs)" using Some j by simp
      note g = get_signed_cache_object[of c key d L kvs cfg, OF \<open>c key = Some d\<close> False this]
      from verify_redis_signature_cases[OF ok, of L cfg] show ?thesis
      proof
        assume "\<exists>b. verify_redis_signature L cfg (dict_get kvs ''value'') (dict_get kvs ''signature'') = Inr b"
        then obtain b where
          "verify_redis_signature L cfg (dict_get kvs ''value'') (dict_get kvs ''signature'') = Inr b" ..
        with g show ?thesis by (cases b) auto
      next
        assume "\<exists>m. verify_redis_signature L cfg (dict_get kvs ''value'') (dict_get kvs ''signature'') = Inl (TypeError m)"
        then obtain m where
          "verify_redis_signature L cfg (dict_get kvs ''value'') (dict_get kvs ''signature'') = Inl (TypeError m)" ..
        with g show ?thesis by auto
      qed
    qed
  qed
qed

lemma get_signed_cache_result:
  assumes "get_signed_cache L cfg c key = Inr (v, c')"
  shows "c' = c \<or> c' = c(key := None)"
proof (cases "c key")
  case None
  then show ?thesis using assms by (simp add: get_signed_cache_def)
next
  case (Some d)
  show ?thesis
  proof (cases "d = [] \<or> json_loads L d = None")
    case True
    with Some assms show ?thesis by (auto simp: get_signed_cache_def split: if_splits)
  next
    case False
    then obtain j where nz: "d \<noteq> []" and j: "json_loads L d = Some j" by auto
    show ?thesis
    proof (cases "\<exists>kvs. j = JObj kvs")
      case True
      then obtain kvs where "j = JObj kvs" ..
      with j have jj: "json_loads L d = Some (JObj kvs)" by simp
      show ?thesis
        using assms unfolding get_signed_cache_object[of c key d L kvs cfg, OF Some nz jj]
        by (auto split: sum.splits bool.splits error.splits)
    next
      case False
      then show ?thesis using assms Some nz j
        by (cases j) (simp_all add: get_signed_cache_def)
    qed
  qed
qed

lemma get_signed_cache_forged_rejected:
  assumes "c key = Some d" and "d \<noteq> []"
      and "json_loads L d = Some (JObj kvs)"
      and "dict_get kvs ''value'' = JStr v"
      and "dict_get kvs ''signature'' \<noteq> JStr (sign_redis_value L cfg v)"
  shows "get_signed_cache L cfg c key = Inr (None, c(key := None))"
  using assms
  by (auto simp: get_signed_cache_def verify_redis_signature_def compare_digest_def Let_def
      split: json.splits)

lemma get_signed_cache_undecodable_rejected:
  assumes "c key = Some d" and "d \<noteq> []" and "json_loads L d = None"
  shows "get_signed_cache L cfg c key = Inr (None, c(key := None))"
  using assms by (simp add: get_signed_cache_def)

lemma get_signed_cache_value_verified:
  assumes "get_signed_cache L cfg c key = Inr (Some x, c')"
  shows "\<exists>d kvs v. c key = Some d \<and> json_loads L d = Some (JObj kvs) \<and> x = JStr v
           \<and> dict_get kvs ''value'' = JStr v
           \<and> dict_get kvs ''signature'' = JStr (sign_redis_value L cfg v) \<and> c' = c"
  using assms
  by (auto simp: get_signed_cache_def verify_redis_signature_def compare_digest_def Let_def
      split: option.splits if_splits json.splits sum.splits bool.splits error.splits)

subsection \<open>Effect of one engine run\<close>

lemma fb_step_refl: "fb_step st st target"
  by (simp add: fb_step_def)

lemma fb_step_redis: "fb_step st st' target \<Longrightarrow> fb_step (st\<lparr>redis := c\<rparr>) st' target"
  "fb_step st st' target \<Longrightarrow> fb_step st (st'\<lparr>redis := c\<rparr>) target"
  by (auto simp: fb_step_def)

lemma cache_set_hint_step:
  "cache_set_hint L cfg env st c = Inr st' \<Longrightarrow> st' = st\<lparr>redis := redis st'\<rparr>"
  by (auto simp: cache_set_hint_def split: option.splits)

lemma set_hint_and_return_step:
  "set_hint_and_return L cfg env st c = (e, st') \<Longrightarrow> st' = st\<lparr>redis := redis st'\<rparr>"
  by (auto simp: set_hint_and_return_def cache_set_hint_def split: option.splits sum.splits)

lemma insert_error_handler_step:
  "insert_error_handler L cfg env st c e = (e', st') \<Longrightarrow> st' = st\<lparr>redis := redis st'\<rparr>"
  by (auto simp: insert_error_handler_def cache_set_hint_def release_lock_def
      split: option.splits sum.splits if_splits)

lemma insert_first_blood_step:
  assumes "insert_first_blood st row = Inr st'"
  shows "solves st' = solves st \<and> challenges st' = challenges st \<and> redis st' = redis st
     \<and> first_blood st' = first_blood st @ [row\<lparr>fb_id := next_fb_id (first_blood st)\<rparr>]
     \<and> (\<forall>x \<in> set (first_blood st).
           fb_challenge_id x \<noteq> fb_challenge_id row \<and> fb_solve_id x \<noteq> fb_solve_id row)"
  using assms by (auto simp: insert_first_blood_def list_ex_iff split: if_splits)

lemma record_first_blood_step:
  assumes "record_first_blood L cfg env st target ts p = (e, st')"
  shows "fb_step st st' target"
proof -
  let ?row = "\<lparr> fb_id = 0, fb_solve_id = solve_id target, fb_challenge_id = solve_challenge_id target,
                  fb_user_id = Some (solve_user_id target), fb_team_id = solve_team_id target,
                  fb_prestige_score = p, fb_timestamp = ts \<rparr>"
  show ?thesis
  proof (cases "case insert_fault env of Some e \<Rightarrow> Inl e | None \<Rightarrow> insert_first_blood st ?row")
    case (Inl err)
    then have "insert_error_handler L cfg env st (solve_challenge_id target) err = (e, st')"
      using assms by (simp add: record_first_blood_def Let_def)
    from insert_error_handler_step[OF this] show ?thesis
      by (metis fb_step_redis(2) fb_step_refl)
  next
    case (Inr st2)
    then have ins: "insert_first_blood st ?row = Inr st2"
      by (auto split: option.splits)
    note i = insert_first_blood_step[OF ins]
    have step2: "fb_step st st2 target"
      using i by (auto simp: fb_step_def)
    have "st' = st2\<lparr>redis := redis st'\<rparr>"
      using assms Inr
      by (auto simp: record_first_blood_def Let_def release_lock_def
          dest: insert_error_handler_step cache_set_hint_step split: sum.splits option.splits)
    then show ?thesis using step2 by (metis fb_step_redis(2))
  qed
qed

lemma decide_first_blood_step:
  assumes "decide_first_blood L cfg env st target = (e, st')"
  shows "fb_step st st' target"
  using assms
  by (auto simp: decide_first_blood_def Let_def
      dest!: set_hint_and_return_step record_first_blood_step
      intro: fb_step_refl
      split: option.splits) (metis fb_step_redis(2) fb_step_refl)+

lemma first_blood_body_step:
  assumes "first_blood_body L cfg env st target = (e, st')"
  shows "fb_step st st' target"
proof (cases "case cache_get_fault env of Some e \<Rightarrow> Inl e
        | None \<Rightarrow> get_signed_cache L cfg (redis st) (first_blood_key (solve_challenge_id target))")
  case (Inl err)
  then show ?thesis using assms by (simp add: first_blood_body_def fb_step_refl)
next
  case (Inr r)
  obtain hint c1 where r: "r = (hint, c1)" by (cases r)
  have "st' = st\<lparr>redis := c1\<rparr> \<or> decide_first_blood L cfg env (st\<lparr>redis := c1\<rparr>) target = (e, st')"
    using assms Inr r
    by (auto simp: first_blood_body_def Let_def split: lock_result.splits if_splits)
  then show ?thesis
  proof
    assume "st' = st\<lparr>redis := c1\<rparr>"
    then show ?thesis by (metis fb_step_redis(2) fb_step_refl)
  next
    assume "decide_first_blood L cfg env (st\<lparr>redis := c1\<rparr>) target = (e, st')"
    from decide_first_blood_step[OF this] show ?thesis
      by (auto simp: fb_step_def)
  qed
qed


lemma on_solve_inserted_step:
  assumes "on_solve_inserted en L cfg env st target = Inr st'"
  shows "fb_step st st' target"
proof (cases en)
  case False
  then show ?thesis using assms by (simp add: on_solve_inserted_def fb_step_refl)
next
  case True
  obtain e s where b: "first_blood_body L cfg env st target = (e, s)"
    by (cases "first_blood_body L cfg env st target")
  then have "s = st'" using assms True
    by (auto simp: on_solve_inserted_def split: option.splits)
  with first_blood_body_step[OF b] show ?thesis by simp
qed

lemma fb_step_distinct:
  assumes "fb_step st st' target" and "distinct (map fb_challenge_id (first_blood st))"
  shows "distinct (map fb_challenge_id (first_blood st'))"
  using assms by (force simp: fb_step_def)

lemma fb_step_distinct_solve:
  assumes "fb_step st st' target" and "distinct (map fb_solve_id (first_blood st))"
  shows "distinct (map fb_solve_id (first_blood st'))"
  using assms by (force simp: fb_step_def)

lemma run_ops_distinct:
  assumes "run_ops en L cfg ops (st, pending) = Some (st', pending')"
      and "distinct (map fb_challenge_id (first_blood st))"
  shows "distinct (map fb_challenge_id (first_blood st'))"
  using assms
proof (induction ops arbitrary: st pending)
  case Nil
  then show ?case by simp
next
  case (Cons a ops)
  show ?case
  proof (cases a)
    case (InsertSolve s)
    with Cons.prems have
      "run_ops en L cfg ops (st\<lparr>solves := solves st @ [s]\<rparr>, pending @ [s]) = Some (st', pending')"
      by (auto split: if_splits)
    from Cons.IH[OF this] Cons.prems(2) show ?thesis by simp
  next
    case (Engine env s)
    with Cons.prems obtain st1 where
      h: "on_solve_inserted en L cfg env st s = Inr st1"
      and r: "run_ops en L cfg ops (st1, removeAll s pending) = Some (st', pending')"
      by (auto split: if_splits sum.splits)
    have "distinct (map fb_challenge_id (first_blood st1))"
      using fb_step_distinct[OF on_solve_inserted_step[OF h] Cons.prems(2)] .
    from Cons.IH[OF r this] show ?thesis .
  qed
qed

lemma cache_readable_delete: "cache_readable L cfg c \<Longrightarrow> cache_readable L cfg (c(key := None))"
  by (simp add: cache_readable_def entry_readable_def)

lemma cache_readable_set:
  assumes "hint_codec_ok L cfg" and "cache_readable L cfg c"
  shows "cache_readable L cfg (set_signed_cache L cfg c key ''1'')"
  using assms
  by (auto simp: cache_readable_def set_signed_cache_def entry_readable_def hint_codec_ok_def
      signed_document_def dict_get_def)

lemma select_first_blood_redis [simp]:
  "select_first_blood (st\<lparr>redis := c\<rparr>) = select_first_blood st"
  by (simp add: select_first_blood_def fun_eq_iff)

lemma select_earlier_solve_redis [simp]:
  "select_earlier_solve (st\<lparr>redis := c\<rparr>) = select_earlier_solve st"
  by (simp add: select_earlier_solve_def fun_eq_iff)

lemma select_challenge_value_redis [simp]:
  "select_challenge_value (st\<lparr>redis := c\<rparr>) = select_challenge_value st"
  by (simp add: select_challenge_value_def fun_eq_iff)

lemma select_first_blood_None_iff:
  "select_first_blood st c = None \<longleftrightarrow> (\<forall>r \<in> set (first_blood st). fb_challenge_id r \<noteq> c)"
  by (auto simp: select_first_blood_def find_None_iff)

lemma cache_set_hint_ok:
  "cache_set_fault env = None \<Longrightarrow>
   cache_set_hint L cfg env st c
     = Inr (st\<lparr>redis := set_signed_cache L cfg (redis st) (first_blood_key c) ''1''\<rparr>)"
  by (simp add: cache_set_hint_def)

lemma set_hint_and_return_ok:
  "cache_set_fault env = None \<Longrightarrow>
   set_hint_and_return L cfg env st c
     = (None, st\<lparr>redis := set_signed_cache L cfg (redis st) (first_blood_key c) ''1''\<rparr>)"
  by (simp add: set_hint_and_return_def cache_set_hint_ok)

lemma benign_duplicate_solve:
  "benign_insert_error (IntegrityError ''Duplicate entry for key solve_id'')"
  by code_simp

lemma record_first_blood_duplicate:
  assumes "insert_fault env = None" and "cache_set_fault env = None"
      and "list_ex (\<lambda>r. fb_solve_id r = solve_id target) (first_blood st)"
  shows "record_first_blood L cfg env st target ts p
     = (None, st\<lparr>redis := set_signed_cache L cfg (redis st)
                              (first_blood_key (solve_challenge_id target)) ''1''\<rparr>)"
  using assms benign_duplicate_solve
  by (simp add: record_first_blood_def insert_first_blood_def insert_error_handler_def
      cache_set_hint_ok release_lock_def Let_def split: option.splits)

lemma record_first_blood_inserts:
  assumes "insert_fault env = None" and "cache_set_fault env = None"
      and "\<not> list_ex (\<lambda>r. fb_solve_id r = solve_id target) (first_blood st)"
      and "\<not> list_ex (\<lambda>r. fb_challenge_id r = solve_challenge_id target) (first_blood st)"
  shows "record_first_blood L cfg env st target ts p
     = (None, st\<lparr>first_blood := first_blood st @
                     [\<lparr> fb_id = next_fb_id (first_blood st), fb_solve_id = solve_id target,
                        fb_challenge_id = solve_challenge_id target,
                        fb_user_id = Some (solve_user_id target),
                        fb_team_id = solve_team_id target,
                        fb_prestige_score = p, fb_timestamp = ts \<rparr>],
                   redis := set_signed_cache L cfg (redis st)
                              (first_blood_key (solve_challenge_id target)) ''1''\<rparr>)"
  using assms
  by (simp add: record_first_blood_def insert_first_blood_def cache_set_hint_ok release_lock_def
      Let_def split: option.splits)

lemma decide_first_blood_ok:
  assumes ok: "env_ok env" and rd: "cache_readable L cfg (redis st)" and codec: "hint_codec_ok L cfg"
  shows "\<exists>e st'. decide_first_blood L cfg env st target = (e, st')
           \<and> cache_readable L cfg (redis st')
           \<and> solves st' = solves st \<and> challenges st' = challenges st
           \<and> first_blood st' =
               (if awarded env st target then first_blood st @ [new_row env st target]
                else first_blood st)"
proof -
  have faults: "select_first_blood_fault env = None" "select_earlier_fault env = None"
    "select_value_fault env = None" "insert_fault env = None" "cache_set_fault env = None"
    using ok by (simp_all add: env_ok_def)
  have rd': "\<And>k. cache_readable L cfg (set_signed_cache L cfg (redis st) k ''1'')"
    using cache_readable_set[OF codec rd] by simp
  let ?c = "solve_challenge_id target"
  let ?ts = "case solve_date target of Some d \<Rightarrow> d | None \<Rightarrow> utcnow env"
  show ?thesis
  proof (cases "select_first_blood st ?c")
    case (Some r)
    then show ?thesis
      using faults rd'
      by (simp add: decide_first_blood_def set_hint_and_return_ok awarded_def)
  next
    case None
    note fbn = None
    show ?thesis
    proof (cases "select_earlier_solve st ?c ?ts (solve_user_id target)")
      case (Some r)
      then show ?thesis
        using faults rd' fbn
        by (simp add: decide_first_blood_def set_hint_and_return_ok awarded_def Let_def)
    next
      case None
      have nochal: "\<not> list_ex (\<lambda>r. fb_challenge_id r = ?c) (first_blood st)"
        using fbn by (simp add: select_first_blood_None_iff list_ex_iff)
      have d: "decide_first_blood L cfg env st target
               = record_first_blood L cfg env st target ?ts
                   (calculate_prestige_score
                      (case select_challenge_value st ?c of Some v \<Rightarrow> v | None \<Rightarrow> Some 100))"
        using faults fbn None by (simp add: decide_first_blood_def Let_def)
      show ?thesis
      proof (cases "list_ex (\<lambda>r. fb_solve_id r = solve_id target) (first_blood st)")
        case True
        have "awarded env st target = False"
          using True by (simp add: awarded_def)
        then show ?thesis
          using rd' by (simp add: d record_first_blood_duplicate[OF faults(4,5) True])
      next
        case False
        have "awarded env st target"
          using False fbn None by (simp add: awarded_def)
        then show ?thesis
          using rd'
          by (simp add: d record_first_blood_inserts[OF faults(4,5) False nochal] new_row_def)
      qed
    qed
  qed
qed

lemma on_solve_inserted_ok:
  assumes ok: "env_ok env" and rd: "cache_readable L cfg (redis st)" and codec: "hint_codec_ok L cfg"
  shows "\<exists>st'. on_solve_inserted True L cfg env st target = Inr st'
           \<and> cache_readable L cfg (redis st')
           \<and> solves st' = solves st \<and> challenges st' = challenges st
           \<and> first_blood st' =
               (if awarded env st target then first_blood st @ [new_row env st target]
                else first_blood st)"
proof -
  let ?key = "first_blood_key (solve_challenge_id target)"
  have "entry_readable L cfg (redis st ?key)"
    using rd by (simp add: cache_readable_def)
  from get_signed_cache_readable[of L cfg "redis st" ?key, OF this] obtain v c1 where
    g: "get_signed_cache L cfg (redis st) ?key = Inr (v, c1)"
    and c1: "c1 = redis st \<or> c1 = (redis st)(?key := None)"
    by blast
  have rd1: "cache_readable L cfg (redis (st\<lparr>redis := c1\<rparr>))"
    using c1 rd cache_readable_delete by auto
  from decide_first_blood_ok[OF ok rd1 codec, of target] obtain e st' where
    d: "decide_first_blood L cfg env (st\<lparr>redis := c1\<rparr>) target = (e, st')"
    and props: "cache_readable L cfg (redis st')" "solves st' = solves st"
      "challenges st' = challenges st"
      "first_blood st' =
         (if awarded env (st\<lparr>redis := c1\<rparr>) target
          then first_blood st @ [new_row env (st\<lparr>redis := c1\<rparr>) target]
          else first_blood st)"
    by auto
  have aw: "awarded env (st\<lparr>redis := c1\<rparr>) target = awarded env st target"
    by (simp add: awarded_def)
  have nr: "new_row env (st\<lparr>redis := c1\<rparr>) target = new_row env st target"
    by (simp add: new_row_def)
  have cg: "cache_get_fault env = None" using ok by (simp add: env_ok_def)
  have lock: "(case get_lock env of LockScalar r \<Rightarrow> r = Some 1 | LockRaises e \<Rightarrow> True)"
    using ok by (simp add: env_ok_def)
  have "first_blood_body L cfg env st target = (e, st')"
    using g d cg lock
    by (auto simp: first_blood_body_def Let_def split: lock_result.splits)
  then have "on_solve_inserted True L cfg env st target = Inr st'"
    by (simp add: on_solve_inserted_def split: option.splits)
  then show ?thesis using props aw nr by simp
qed

subsection \<open>Schedules\<close>

lemma precedes_irrefl: "\<not> precedes s s"
  by (auto simp: precedes_def earlier_than_def split: option.splits)

lemma precedes_trans:
  "precedes a b \<Longrightarrow> precedes b d \<Longrightarrow> precedes a d"
  by (auto simp: precedes_def earlier_than_def split: option.splits)

lemma ex_minimal_solve:
  assumes "xs \<noteq> []"
  shows "\<exists>s \<in> set xs. \<forall>e \<in> set xs. \<not> precedes e s"
  using assms
proof (induction xs)
  case Nil
  then show ?case by simp
next
  case (Cons x xs)
  show ?case
  proof (cases "xs = []")
    case True
    then show ?thesis by (simp add: precedes_irrefl)
  next
    case False
    with Cons.IH obtain m where m: "m \<in> set xs" "\<forall>e \<in> set xs. \<not> precedes e m" by blast
    show ?thesis
    proof (cases "precedes x m")
      case True
      have "\<forall>e \<in> set (x # xs). \<not> precedes e x"
      proof
        fix e assume "e \<in> set (x # xs)"
        then show "\<not> precedes e x"
          using m(2) precedes_trans[OF _ True] precedes_irrefl by auto
      qed
      then show ?thesis by auto
    next
      case False
      with m show ?thesis by auto
    qed
  qed
qed

lemma awarded_iff:
  assumes cons: "store_consistent st" and mem: "s \<in> set (solves st)"
      and date: "solve_date s = Some d"
  shows "awarded env st s \<longleftrightarrow>
           first_blood_of st (solve_challenge_id s) = [] \<and> (\<forall>e \<in> set (solves st). \<not> precedes e s)"
proof -
  have a: "select_first_blood st (solve_challenge_id s) = None
            \<longleftrightarrow> first_blood_of st (solve_challenge_id s) = []"
    by (auto simp: select_first_blood_None_iff first_blood_of_def filter_empty_conv)
  have b: "select_earlier_solve st (solve_challenge_id s) d (solve_user_id s) = None
            \<longleftrightarrow> (\<forall>e \<in> set (solves st). \<not> precedes e s)"
    using date by (auto simp: select_earlier_solve_def find_None_iff precedes_def)
  have c: "first_blood_of st (solve_challenge_id s) = []
           \<Longrightarrow> \<not> list_ex (\<lambda>r. fb_solve_id r = solve_id s) (first_blood st)"
  proof
    assume empty: "first_blood_of st (solve_challenge_id s) = []"
    assume "list_ex (\<lambda>r. fb_solve_id r = solve_id s) (first_blood st)"
    then obtain r where r: "r \<in> set (first_blood st)" "fb_solve_id r = solve_id s"
      by (auto simp: list_ex_iff)
    with cons obtain s' where s': "s' \<in> set (solves st)" "solve_id s' = fb_solve_id r"
      "solve_challenge_id s' = fb_challenge_id r"
      by (auto simp: store_consistent_def)
    have "distinct (map solve_id (solves st))" using cons by (simp add: store_consistent_def)
    then have "s' = s"
      using s'(1,2) r(2) mem by (metis distinct_map inj_on_def)
    then have "fb_challenge_id r = solve_challenge_id s" using s'(3) by simp
    with r(1) empty show False
      by (auto simp: first_blood_of_def filter_empty_conv)
  qed
  show ?thesis
    using a b c date by (auto simp: awarded_def)
qed

lemma first_blood_of_append:
  "first_blood st' = first_blood st @ [r] \<Longrightarrow>
   first_blood_of st' c = first_blood_of st c @ (if fb_challenge_id r = c then [r] else [])"
  by (simp add: first_blood_of_def)

lemma new_row_fields [simp]:
  "fb_solve_id (new_row env st s) = solve_id s"
  "fb_challenge_id (new_row env st s) = solve_challenge_id s"
  "fb_user_id (new_row env st s) = Some (solve_user_id s)"
  by (simp_all add: new_row_def)

lemma run_inv_insert:
  assumes inv: "run_inv L cfg c (st, pending)"
      and fresh: "solve_id s \<notin> set (map solve_id (solves st))"
      and date: "solve_date s \<noteq> None"
  shows "run_inv L cfg c (st\<lparr>solves := solves st @ [s]\<rparr>, pending @ [s])"
proof -
  have fb: "first_blood_of (st\<lparr>solves := solves st @ [s]\<rparr>) c = first_blood_of st c"
    by (simp add: first_blood_of_def)
  have cons: "store_consistent (st\<lparr>solves := solves st @ [s]\<rparr>)"
    using inv fresh by (fastforce simp: run_inv_def store_consistent_def)
  show ?thesis
    unfolding run_inv_def using inv cons date
    by (auto simp: run_inv_def fb)
qed

lemma run_inv_engine:
  assumes inv: "run_inv L cfg c (st, pending)"
      and ok: "env_ok env" and codec: "hint_codec_ok L cfg"
      and pend: "s \<in> set pending"
  shows "\<exists>st'. on_solve_inserted True L cfg env st s = Inr st'
           \<and> run_inv L cfg c (st', removeAll s pending)"
proof -
  have cons: "store_consistent st" and sub: "set pending \<subseteq> set (solves st)"
    and rd: "cache_readable L cfg (redis st)"
    and dates: "\<forall>x \<in> set (solves st). solve_challenge_id x = c \<longrightarrow> solve_date x \<noteq> None"
    and minimal: "first_blood_of st c = [] \<Longrightarrow>
        \<forall>x \<in> set (solves st).
           solve_challenge_id x = c \<and> (\<forall>e \<in> set (solves st). \<not> precedes e x) \<longrightarrow> x \<in> set pending"
    using inv by (auto simp: run_inv_def)
  have mem: "s \<in> set (solves st)" using pend sub by auto
  from on_solve_inserted_ok[OF ok rd codec, of s] obtain st' where
    r: "on_solve_inserted True L cfg env st s = Inr st'"
    and rd': "cache_readable L cfg (redis st')"
    and sv: "solves st' = solves st"
    and fb: "first_blood st' =
               (if awarded env st s then first_blood st @ [new_row env st s] else first_blood st)"
    by blast
  have cons': "store_consistent st'"
    using cons mem sv fb by (auto simp: store_consistent_def)
  have min': "first_blood_of st' c = [] \<longrightarrow>
        (\<forall>x \<in> set (solves st').
           solve_challenge_id x = c \<and> (\<forall>e \<in> set (solves st'). \<not> precedes e x)
             \<longrightarrow> x \<in> set (removeAll s pending))"
  proof (intro impI ballI)
    fix x
    assume empty': "first_blood_of st' c = []" and x: "x \<in> set (solves st')"
      and xm: "solve_challenge_id x = c \<and> (\<forall>e \<in> set (solves st'). \<not> precedes e x)"
    have empty: "first_blood_of st c = []"
      using empty' fb by (auto simp: first_blood_of_def split: if_splits)
    have xp: "x \<in> set pending" using minimal[OF empty] x xm sv by auto
    have "x \<noteq> s"
    proof
      assume "x = s"
      then have sc: "solve_challenge_id s = c" and smin: "\<forall>e \<in> set (solves st). \<not> precedes e s"
        using xm sv by auto
      then obtain d where d: "solve_date s = Some d" using dates mem by auto
      have "awarded env st s"
        using awarded_iff[OF cons mem d, of env] empty sc smin by simp
      then have "first_blood st' = first_blood st @ [new_row env st s]" using fb by simp
      then have "new_row env st s \<in> set (first_blood_of st' c)"
        using sc by (simp add: first_blood_of_def)
      with empty' show False by simp
    qed
    with xp show "x \<in> set (removeAll s pending)" by simp
  qed
  have "run_inv L cfg c (st', removeAll s pending)"
    unfolding run_inv_def using cons' sub sv rd' dates min' by auto
  with r show ?thesis by blast
qed

lemma run_ops_inv:
  assumes "run_ops True L cfg ops (st, pending) = Some (st', pending')"
      and "run_inv L cfg c (st, pending)"
      and "list_all op_ok ops" and "hint_codec_ok L cfg"
  shows "run_inv L cfg c (st', pending')"
  using assms
proof (induction ops arbitrary: st pending)
  case Nil
  then show ?case by simp
next
  case (Cons a ops)
  show ?case
  proof (cases a)
    case (InsertSolve s)
    with Cons.prems have fresh: "solve_id s \<notin> set (map solve_id (solves st))"
      and r: "run_ops True L cfg ops (st\<lparr>solves := solves st @ [s]\<rparr>, pending @ [s])
               = Some (st', pending')"
      and date: "solve_date s \<noteq> None"
      by (auto split: if_splits)
    from Cons.IH[OF r run_inv_insert[OF Cons.prems(2) fresh date]] Cons.prems(3,4)
    show ?thesis by simp
  next
    case (Engine env s)
    with Cons.prems have pend: "s \<in> set pending" and ok: "env_ok env"
      by (auto split: if_splits)
    from run_inv_engine[OF Cons.prems(2) ok Cons.prems(4) pend] obtain st1 where
      h: "on_solve_inserted True L cfg env st s = Inr st1"
      and inv1: "run_inv L cfg c (st1, removeAll s pending)"
      by blast
    have r: "run_ops True L cfg ops (st1, removeAll s pending) = Some (st', pending')"
      using Cons.prems(1) Engine pend h by simp
    from Cons.IH[OF r inv1] Cons.prems(3,4) show ?thesis by simp
  qed
qed

lemma run_ops_solves_grow:
  assumes "run_ops en L cfg ops (st, pending) = Some (st', pending')"
  shows "set (solves st) \<subseteq> set (solves st')
       \<and> (\<forall>s. InsertSolve s \<in> set ops \<longrightarrow> s \<in> set (solves st'))"
  using assms
proof (induction ops arbitrary: st pending)
  case Nil
  then show ?case by simp
next
  case (Cons a ops)
  show ?case
  proof (cases a)
    case (InsertSolve s)
    with Cons.prems have
      r: "run_ops en L cfg ops (st\<lparr>solves := solves st @ [s]\<rparr>, pending @ [s])
               = Some (st', pending')"
      by (auto split: if_splits)
    from Cons.IH[OF r] InsertSolve show ?thesis by auto
  next
    case (Engine env s)
    with Cons.prems obtain st1 where
      h: "on_solve_inserted en L cfg env st s = Inr st1"
      and r: "run_ops en L cfg ops (st1, removeAll s pending) = Some (st', pending')"
      by (auto split: if_splits sum.splits)
    have "solves st1 = solves st"
      using on_solve_inserted_step[OF h] by (simp add: fb_step_def)
    with Cons.IH[OF r] Engine show ?thesis by auto
  qed
qed

lemma run_inv_final:
  assumes inv: "run_inv L cfg c (st, [])"
      and ex: "s \<in> set (solves st)" "solve_challenge_id s = c"
  shows "first_blood_of st c \<noteq> []"
proof
  assume empty: "first_blood_of st c = []"
  let ?xs = "filter (\<lambda>x. solve_challenge_id x = c) (solves st)"
  have "?xs \<noteq> []" using ex by (auto simp: filter_empty_conv)
  from ex_minimal_solve[OF this] obtain m where
    m: "m \<in> set ?xs" "\<forall>e \<in> set ?xs. \<not> precedes e m" by blast
  have "\<forall>e \<in> set (solves st). \<not> precedes e m"
  proof
    fix e assume e: "e \<in> set (solves st)"
    show "\<not> precedes e m"
    proof (cases "solve_challenge_id e = c")
      case True
      with e m(2) show ?thesis by simp
    next
      case False
      with m(1) show ?thesis
        by (auto simp: precedes_def earlier_than_def split: option.splits)
    qed
  qed
  with inv empty m(1) have "m \<in> set []"
    by (auto simp: run_inv_def)
  then show False by simp
qed

lemma distinct_filter_one:
  assumes "distinct (map f xs)" and "filter (\<lambda>r. f r = c) xs \<noteq> []"
  shows "length (filter (\<lambda>r. f r = c) xs) = 1"
  using assms
proof (induction xs)
  case Nil
  then show ?case by simp
next
  case (Cons x xs)
  show ?case
  proof (cases "f x = c")
    case True
    have "\<forall>r \<in> set xs. f r \<noteq> c"
    proof
      fix r assume "r \<in> set xs"
      then have "f r \<in> f ` set xs" by simp
      with Cons.prems(1) True show "f r \<noteq> c" by auto
    qed
    then have "filter (\<lambda>r. f r = c) xs = []"
      by (simp add: filter_empty_conv)
    with True show ?thesis by simp
  next
    case False
    with Cons show ?thesis by simp
  qed
qed







lemmas engine_defs =
  on_solve_inserted_def first_blood_body_def decide_first_blood_def record_first_blood_def
  insert_first_blood_def insert_error_handler_def set_hint_and_return_def cache_set_hint_def
  release_lock_def select_first_blood_def select_earlier_solve_def select_challenge_value_def
  earlier_than_def get_signed_cache_def set_signed_cache_def signed_document_def
  sign_redis_value_def verify_redis_signature_def compare_digest_def dict_get_def
  example_lib_def hint_lib_def loads_among_def calculate_prestige_score_def next_fb_id_def
  first_blood_of_def winners_def env_acquired_def env_lock_timeout_def solve_of_def store3_def
  Let_def digest64_nonempty digest64_ascii json_quote_def

subsection \<open>The tables do not depend on the cache\<close>

lemma same_db_refl_redis: "same_db (e, st\<lparr>redis := a\<rparr>) (e, st\<lparr>redis := b\<rparr>)"
  by (simp add: same_db_def db_of_def)

lemma set_hint_and_return_same:
  assumes "db_of s1 = db_of s2"
  shows "same_db (set_hint_and_return L cfg env s1 c) (set_hint_and_return L cfg env s2 c)"
  using assms
  by (cases "cache_set_fault env")
     (simp_all add: set_hint_and_return_def cache_set_hint_def same_db_def db_of_def)

lemma insert_error_handler_same:
  assumes "db_of s1 = db_of s2"
  shows "same_db (insert_error_handler L cfg env s1 c e) (insert_error_handler L cfg env s2 c e)"
  using assms
  by (cases "cache_set_fault env")
     (simp_all add: insert_error_handler_def cache_set_hint_def same_db_def db_of_def
        release_lock_def split: option.splits)

lemma insert_first_blood_same:
  assumes "db_of s1 = db_of s2"
  shows "(\<exists>e. insert_first_blood s1 row = Inl e \<and> insert_first_blood s2 row = Inl e)
       \<or> (\<exists>t1 t2. insert_first_blood s1 row = Inr t1 \<and> insert_first_blood s2 row = Inr t2
              \<and> db_of t1 = db_of t2)"
  using assms by (auto simp: insert_first_blood_def db_of_def)

lemma cache_set_hint_same:
  assumes "db_of s1 = db_of s2"
  shows "(\<exists>e. cache_set_hint L cfg env s1 c = Inl e \<and> cache_set_hint L cfg env s2 c = Inl e)
       \<or> (\<exists>t1 t2. cache_set_hint L cfg env s1 c = Inr t1 \<and> cache_set_hint L cfg env s2 c = Inr t2
              \<and> db_of t1 = db_of t2)"
  using assms by (cases "cache_set_fault env") (auto simp: cache_set_hint_def db_of_def)

lemma record_first_blood_same:
  assumes db: "db_of s1 = db_of s2"
  shows "same_db (record_first_blood L cfg env s1 target ts p)
                 (record_first_blood L cfg env s2 target ts p)"
proof -
  let ?row = "\<lparr> fb_id = 0, fb_solve_id = solve_id target, fb_challenge_id = solve_challenge_id target,
                  fb_user_id = Some (solve_user_id target), fb_team_id = solve_team_id target,
                  fb_prestige_score = p, fb_timestamp = ts \<rparr>"
  let ?c = "solve_challenge_id target"
  show ?thesis
  proof (cases "insert_fault env")
    case (Some e)
    then show ?thesis
      using insert_error_handler_same[OF db, of L cfg env ?c e]
      by (simp add: record_first_blood_def Let_def)
  next
    case None
    from insert_first_blood_same[OF db, of ?row] show ?thesis
    proof (elim disjE exE conjE)
      fix e assume "insert_first_blood s1 ?row = Inl e" "insert_first_blood s2 ?row = Inl e"
      then show ?thesis
        using None insert_error_handler_same[OF db, of L cfg env ?c e]
        by (simp add: record_first_blood_def Let_def)
    next
      fix t1 t2 assume i: "insert_first_blood s1 ?row = Inr t1" "insert_first_blood s2 ?row = Inr t2"
        and t: "db_of t1 = db_of t2"
      from cache_set_hint_same[OF t, of L cfg env ?c] show ?thesis
      proof (elim disjE exE conjE)
        fix e assume "cache_set_hint L cfg env t1 ?c = Inl e" "cache_set_hint L cfg env t2 ?c = Inl e"
        then show ?thesis
          using None i insert_error_handler_same[OF t, of L cfg env ?c e]
          by (simp add: record_first_blood_def Let_def)
      next
        fix u1 u2 assume "cache_set_hint L cfg env t1 ?c = Inr u1" "cache_set_hint L cfg env t2 ?c = Inr u2"
          "db_of u1 = db_of u2"
        then show ?thesis
          using None i
          by (simp add: record_first_blood_def Let_def same_db_def release_lock_def db_of_def
              split: option.splits)
      qed
    qed
  qed
qed

lemma select_same:
  assumes "db_of s1 = db_of s2"
  shows "select_first_blood s1 = select_first_blood s2"
    and "select_earlier_solve s1 = select_earlier_solve s2"
    and "select_challenge_value s1 = select_challenge_value s2"
  using assms
  by (simp_all add: fun_eq_iff db_of_def select_first_blood_def select_earlier_solve_def
      select_challenge_value_def)

lemma same_db_refl: "db_of s1 = db_of s2 \<Longrightarrow> same_db (e, s1) (e, s2)"
  by (simp add: same_db_def)

lemma decide_first_blood_same:
  assumes db: "db_of s1 = db_of s2"
  shows "same_db (decide_first_blood L cfg env s1 target) (decide_first_blood L cfg env s2 target)"
  unfolding decide_first_blood_def Let_def select_same[OF db]
  using same_db_refl[OF db] set_hint_and_return_same[OF db] record_first_blood_same[OF db]
  by (simp split: option.splits)

lemma first_blood_body_same:
  assumes g1: "cache_get_fault env = None \<longrightarrow>
                 (\<exists>v1 v2. get_signed_cache L cfg (redis s1) key = Inr (v1, redis s1)
                        \<and> get_signed_cache L cfg (redis s2) key = Inr (v2, redis s2))"
      and key: "key = first_blood_key (solve_challenge_id target)"
      and db: "db_of s1 = db_of s2"
  shows "same_db (first_blood_body L cfg env s1 target) (first_blood_body L cfg env s2 target)"
proof (cases "cache_get_fault env")
  case (Some e)
  then show ?thesis using db by (simp add: first_blood_body_def same_db_def)
next
  case None
  with g1 obtain v1 v2 where
    a: "get_signed_cache L cfg (redis s1) key = Inr (v1, redis s1)"
    and b: "get_signed_cache L cfg (redis s2) key = Inr (v2, redis s2)" by blast
  show ?thesis
    using None a b same_db_refl[OF db, of None] decide_first_blood_same[OF db, of L cfg env target]
    unfolding key
    by (simp add: first_blood_body_def Let_def split: lock_result.splits)
qed

subsection \<open>Consent and verdicts\<close>

lemma find_update_first_keeps:
  assumes "\<And>r. P r \<Longrightarrow> P (f r)"
  shows "find P (update_first P f rows) = map_option f (find P rows)"
  using assms by (induction rows) auto

lemma find_append_new:
  "find P rows = None \<Longrightarrow> P r \<Longrightarrow> find P (rows @ [r]) = Some r"
  by (induction rows) (auto split: if_splits)

lemma find_append_old:
  "find P rows = Some x \<Longrightarrow> find P (rows @ ys) = Some x"
  by (induction rows) (auto split: if_splits)

lemma has_consent_after_withdraw:
  assumes "withdraw_consent fault now u db = Inr db'"
  shows "\<not> has_consent db' u"
proof (cases "consent_of db u")
  case None
  then show ?thesis
    using assms find_append_new[of "\<lambda>r. uc_user_id r = u" "consents db"]
    by (auto simp: withdraw_consent_def has_consent_def consent_of_def split: option.splits)
next
  case (Some c)
  have "find (\<lambda>r. uc_user_id r = u)
          (update_first (\<lambda>r. uc_user_id r = u)
             (\<lambda>r. r\<lparr>consented := False, withdrawn_at := Some now, last_updated := now\<rparr>)
             (consents db))
        = map_option (\<lambda>r. r\<lparr>consented := False, withdrawn_at := Some now, last_updated := now\<rparr>)
            (find (\<lambda>r. uc_user_id r = u) (consents db))"
    by (rule find_update_first_keeps) simp
  then show ?thesis
    using assms Some
    by (auto simp: withdraw_consent_def has_consent_def consent_of_def split: option.splits)
qed

lemma create_without_consent:
  assumes inv: "u \<in> set (involved_users p)" and nz: "user_id_2 p \<noteq> Some 0"
      and no: "\<not> has_consent db u"
  shows "create_suspicion_record L env db p = (None, db)"
proof (cases "consent_query_fault env")
  case (Some e)
  then show ?thesis by (simp add: create_suspicion_record_def create_suspicion_body_def)
next
  case None
  show ?thesis
  proof (cases "has_consent db (user_id_1 p)")
    case False
    then show ?thesis
      using None
      by (auto simp: create_suspicion_record_def create_suspicion_body_def has_consent_def
          split: option.splits)
  next
    case True
    with inv no have u2: "user_id_2 p = Some u"
      by (auto simp: involved_users_def split: option.splits)
    with nz have "u \<noteq> 0" by auto
    then show ?thesis
      using None no True u2
      by (auto simp: create_suspicion_record_def create_suspicion_body_def has_consent_def
          split: option.splits)
  qed
qed





lemma review_put_history:
  "verdict_history (snd (review_put env db sid req)) = verdict_history db
   \<or> (\<exists>e. verdict_history (snd (review_put env db sid req)) = verdict_history db @ [e])"
  by (auto simp: review_put_def record_verdict_def Let_def
      split: json.splits option.splits if_splits sum.splits)

subsection \<open>Sanitised evidence of the three passes\<close>

named_theorems key_facts

text \<open>The tests that \<open>sanitize_items\<close> makes on the keys of the three passes.\<close>

lemma keys_containing_ip [key_facts]:
  "contains (lower ''ip'') ''ip'' = True"
  "contains (lower ''time_delta_seconds'') ''ip'' = False"
  "contains (lower ''submission_1_id'') ''ip'' = False"
  "contains (lower ''submission_2_id'') ''ip'' = False"
  "contains (lower ''submission_1_text'') ''ip'' = False"
  "contains (lower ''submission_2_text'') ''ip'' = False"
  "contains (lower ''submission_text'') ''ip'' = False"
  "contains (lower ''ip_1'') ''ip'' = True"
  "contains (lower ''ip_2'') ''ip'' = True"
  "contains (lower ''ua_similarity'') ''ip'' = False"
  "contains (lower ''user_agent_1'') ''ip'' = False"
  "contains (lower ''user_agent_2'') ''ip'' = False"
  by code_simp+

lemma keys_containing_user_agent [key_facts]:
  "contains (lower ''ip'') ''user_agent'' = False"
  "contains (lower ''time_delta_seconds'') ''user_agent'' = False"
  "contains (lower ''submission_1_id'') ''user_agent'' = False"
  "contains (lower ''submission_2_id'') ''user_agent'' = False"
  "contains (lower ''submission_1_text'') ''user_agent'' = False"
  "contains (lower ''submission_2_text'') ''user_agent'' = False"
  "contains (lower ''submission_text'') ''user_agent'' = False"
  "contains (lower ''ip_1'') ''user_agent'' = False"
  "contains (lower ''ip_2'') ''user_agent'' = False"
  "contains (lower ''ua_similarity'') ''user_agent'' = False"
  "contains (lower ''user_agent_1'') ''user_agent'' = True"
  "contains (lower ''user_agent_2'') ''user_agent'' = True"
  by code_simp+

lemma keys_containing_submission [key_facts]:
  "contains (lower ''ip'') ''submission'' = False"
  "contains (lower ''time_delta_seconds'') ''submission'' = False"
  "contains (lower ''submission_1_id'') ''submission'' = True"
  "contains (lower ''submission_2_id'') ''submission'' = True"
  "contains (lower ''submission_1_text'') ''submission'' = True"
  "contains (lower ''submission_2_text'') ''submission'' = True"
  "contains (lower ''submission_text'') ''submission'' = True"
  "contains (lower ''ip_1'') ''submission'' = False"
  "contains (lower ''ip_2'') ''submission'' = False"
  "contains (lower ''ua_similarity'') ''submission'' = False"
  "contains (lower ''user_agent_1'') ''submission'' = False"
  "contains (lower ''user_agent_2'') ''submission'' = False"
  by code_simp+

lemma keys_containing_text [key_facts]:
  "contains (lower ''ip'') ''text'' = False"
  "contains (lower ''time_delta_seconds'') ''text'' = False"
  "contains (lower ''submission_1_id'') ''text'' = False"
  "contains (lower ''submission_2_id'') ''text'' = False"
  "contains (lower ''submission_1_text'') ''text'' = True"
  "contains (lower ''submission_2_text'') ''text'' = True"
  "contains (lower ''submission_text'') ''text'' = True"
  "contains (lower ''ip_1'') ''text'' = False"
  "contains (lower ''ip_2'') ''text'' = False"
  "contains (lower ''ua_similarity'') ''text'' = False"
  "contains (lower ''user_agent_1'') ''text'' = False"
  "contains (lower ''user_agent_2'') ''text'' = False"
  by code_simp+

lemma keys_ending_in_hash [key_facts]:
  "endswith ''ip'' ''_hash'' = False"
  "endswith ''time_delta_seconds'' ''_hash'' = False"
  "endswith ''submission_1_id'' ''_hash'' = False"
  "endswith ''submission_2_id'' ''_hash'' = False"
  "endswith ''submission_1_text'' ''_hash'' = False"
  "endswith ''submission_2_text'' ''_hash'' = False"
  "endswith ''submission_text'' ''_hash'' = False"
  "endswith ''ip_1'' ''_hash'' = False"
  "endswith ''ip_2'' ''_hash'' = False"
  "endswith ''ua_similarity'' ''_hash'' = False"
  "endswith ''user_agent_1'' ''_hash'' = False"
  "endswith ''user_agent_2'' ''_hash'' = False"
  "endswith ''ip_hash'' ''_hash'' = True"
  "endswith ''ip_1_hash'' ''_hash'' = True"
  "endswith ''ip_2_hash'' ''_hash'' = True"
  by code_simp+

lemma keys_user_agent_replaced [key_facts]:
  "replace ''user_agent_1'' ''user_agent'' ''browser_os'' = ''browser_os_1''"
  "replace ''user_agent_2'' ''user_agent'' ''browser_os'' = ''browser_os_2''"
  by code_simp+

lemma keys_containing_browser_os [key_facts]:
  "contains ''browser_os_1'' ''browser_os'' = True"
  "contains ''browser_os_2'' ''browser_os'' = True"
  by code_simp+

lemma browser_family_mem: "browser_family u \<in> set browser_families"
  by (simp add: browser_family_def browser_families_def)

lemma os_family_mem: "os_family u \<in> set os_families"
  by (simp add: os_family_def os_families_def)

lemma is_generalized_form: "is_generalized (browser_family u @ '' on '' @ os_family u)"
  unfolding is_generalized_def list_ex_iff
  using browser_family_mem[of u] os_family_mem[of u] by blast

lemma hash_ip_str: "ip \<noteq> [] \<Longrightarrow> hash_ip L (PStr ip) = Inr (PStr (take 16 (sha256_hex L ip)))"
  by (simp add: hash_ip_def)

lemma generalize_str:
  "ua \<noteq> [] \<Longrightarrow> generalize_user_agent (PStr ua)
     = Inr (PStr (browser_family (lower ua) @ '' on '' @ os_family (lower ua)))"
  by (simp add: generalize_user_agent_def)

lemma sanitize_same_ip:
  assumes "ip \<noteq> []"
  shows "sanitize_evidence L (same_ip_evidence ip sub1 sub2 text1 text2)
     = Inr [(''ip_hash'', PStr (take 16 (sha256_hex L ip))),
            (''time_delta_seconds'', PFloat (time_delta_seconds sub1 sub2)),
            (''submission_1_id'', PInt (sub_id sub1)),
            (''submission_2_id'', PInt (sub_id sub2)),
            (''submission_1_text'', PStr ''[REDACTED]''),
            (''submission_2_text'', PStr ''[REDACTED]'')]"
  using assms
  by (simp add: sanitize_evidence_def same_ip_evidence_def hash_ip_str dict_set_def key_facts)

lemma is_ip_hash_take [simp]: "is_ip_hash L (take 16 (sha256_hex L raw))"
  by (auto simp: is_ip_hash_def)

lemma pii_free_same_ip:
  assumes "ip \<noteq> []"
  shows "\<exists>ev. sanitize_evidence L (same_ip_evidence ip sub1 sub2 text1 text2) = Inr ev
            \<and> pii_free L ev"
  unfolding sanitize_same_ip[OF assms]
  by (simp add: pii_free_def sanitized_item_def key_facts)

lemma ip_item_sanitized: "sanitized_item L (ip_item L ''ip_1'' ip)" "sanitized_item L (ip_item L ''ip_2'' ip)"
  by (auto simp: ip_item_def sanitized_item_def key_facts split: option.splits)

lemma ip_item_key:
  "fst (ip_item L ''ip_1'' ip) \<in> {''ip_1'', ''ip_1_hash''}"
  "fst (ip_item L ''ip_2'' ip) \<in> {''ip_2'', ''ip_2_hash''}"
  by (auto simp: ip_item_def split: option.splits)

lemma sanitize_duplicate_wrong:
  "sanitize_evidence L (duplicate_wrong_evidence text sub1 sub2)
     = Inr [(''submission_text'', PStr ''[REDACTED]''),
            (''time_delta_seconds'', PFloat (time_delta_seconds sub1 sub2)),
            (''submission_1_id'', PInt (sub_id sub1)),
            (''submission_2_id'', PInt (sub_id sub2)),
            ip_item L ''ip_1'' (sub_ip sub1),
            ip_item L ''ip_2'' (sub_ip sub2)]"
  by (cases "sub_ip sub1"; cases "sub_ip sub2")
     (simp_all add: sanitize_evidence_def duplicate_wrong_evidence_def dict_set_def key_facts
        opt_str_def ip_item_def hash_ip_def)

lemma pii_free_duplicate_wrong:
  "\<exists>ev. sanitize_evidence L (duplicate_wrong_evidence text sub1 sub2) = Inr ev \<and> pii_free L ev"
  unfolding sanitize_duplicate_wrong
  by (simp add: pii_free_def ip_item_sanitized) (simp add: sanitized_item_def)

lemma sanitize_similar_ua:
  assumes "ua1 \<noteq> []" "ua2 \<noteq> []"
  shows "sanitize_evidence L (similar_ua_evidence similarity ua1 ua2 sub1 sub2)
     = Inr [(''ua_similarity'', PFloat similarity),
            (''browser_os_1'',
               PStr (browser_family (lower (take 200 ua1)) @ '' on '' @ os_family (lower (take 200 ua1)))),
            (''browser_os_2'',
               PStr (browser_family (lower (take 200 ua2)) @ '' on '' @ os_family (lower (take 200 ua2)))),
            (''time_delta_seconds'', PFloat (time_delta_seconds sub1 sub2)),
            (''submission_1_id'', PInt (sub_id sub1)),
            (''submission_2_id'', PInt (sub_id sub2)),
            ip_item L ''ip_1'' (sub_ip sub1),
            ip_item L ''ip_2'' (sub_ip sub2)]"
proof -
  have t: "take 200 ua1 \<noteq> []" "take 200 ua2 \<noteq> []" using assms by auto
  show ?thesis
    using t
    by (cases "sub_ip sub1"; cases "sub_ip sub2")
       (simp_all add: sanitize_evidence_def similar_ua_evidence_def dict_set_def key_facts
          opt_str_def ip_item_def hash_ip_def generalize_user_agent_def)
qed

lemma pii_free_similar_ua:
  assumes "ua1 \<noteq> []" "ua2 \<noteq> []"
  shows "\<exists>ev. sanitize_evidence L (similar_ua_evidence similarity ua1 ua2 sub1 sub2) = Inr ev
            \<and> pii_free L ev"
  unfolding sanitize_similar_ua[OF assms]
  by (simp add: pii_free_def ip_item_sanitized)
     (simp add: sanitized_item_def key_facts is_generalized_form[simplified])

lemma pass_evidence_pii_free:
  assumes "pass_evidence raw"
  shows "\<exists>ev. sanitize_evidence L raw = Inr ev \<and> pii_free L ev"
  using assms pii_free_same_ip pii_free_duplicate_wrong pii_free_similar_ua
  unfolding pass_evidence_def by blast

lemma collect_mem:
  assumes "collect f xs = Inr ys" and "y \<in> set ys"
  shows "\<exists>x \<in> set xs. \<exists>zs. f x = Inr zs \<and> y \<in> set zs"
  using assms
proof (induction xs arbitrary: ys)
  case Nil
  then show ?case by simp
next
  case (Cons x xs)
  from Cons.prems(1) obtain a b where a: "f x = Inr a" and b: "collect f xs = Inr b"
    and ys: "ys = a @ b"
    by (auto split: sum.splits)
  show ?case
  proof (cases "y \<in> set a")
    case True
    with a show ?thesis by auto
  next
    case False
    with Cons.prems(2) ys have "y \<in> set b" by simp
    from Cons.IH[OF b this] show ?thesis by auto
  qed
qed

lemma group_add_keys: "fst ` set (group_add g k x) = insert k (fst ` set g)"
  by (induction g k x rule: group_add.induct) auto

lemma ip_groups_fold_keys:
  assumes "\<forall>k \<in> fst ` set g. k \<noteq> []"
  shows "\<forall>k \<in> fst ` set (foldl (\<lambda>g sub. case sub_ip sub of
                       None \<Rightarrow> g
                     | Some ip \<Rightarrow> if ip = [] then g else group_add g ip sub) g subs). k \<noteq> []"
  using assms
proof (induction subs arbitrary: g)
  case Nil
  then show ?case by simp
next
  case (Cons s subs)
  have "\<forall>k \<in> fst ` set (case sub_ip s of
                       None \<Rightarrow> g
                     | Some ip \<Rightarrow> if ip = [] then g else group_add g ip s). k \<noteq> []"
  proof (cases "sub_ip s")
    case None
    with Cons.prems show ?thesis by simp
  next
    case (Some ip)
    show ?thesis
    proof (cases "ip = []")
      case True
      with Some Cons.prems show ?thesis by simp
    next
      case False
      with Some Cons.prems show ?thesis by (simp add: group_add_keys)
    qed
  qed
  from Cons.IH[OF this] show ?case by simp
qed

lemma ip_groups_keys:
  assumes "(ip, subs) \<in> set (ip_groups submissions)"
  shows "ip \<noteq> []"
proof -
  have "\<forall>k \<in> fst ` set (ip_groups submissions). k \<noteq> []"
    using ip_groups_fold_keys[of "[]" submissions] unfolding ip_groups_def by simp
  moreover have "ip \<in> fst ` set (ip_groups submissions)"
    using assms by force
  ultimately show ?thesis by blast
qed

lemma same_ip_pair_evidence:
  assumes "same_ip_pair ip pr = Inr ps" and "p \<in> set ps"
  shows "\<exists>sub1 sub2 text1 text2. pattern_evidence p = same_ip_evidence ip sub1 sub2 text1 text2"
proof -
  obtain a b where pr: "pr = (a, b)" by (cases pr)
  from assms pr obtain t1 t2 where "pattern_evidence p = same_ip_evidence ip a b t1 t2"
    by (auto simp: same_ip_pair_def split: if_splits option.splits)
  then show ?thesis by blast
qed

lemma detect_same_ip_evidence:
  assumes "detect_same_ip_pattern submissions = Inr ps" and "p \<in> set ps"
  shows "pass_evidence (pattern_evidence p)"
proof -
  from collect_mem[OF assms[unfolded detect_same_ip_pattern_def]] obtain g zs where
    g: "g \<in> set (ip_groups submissions)"
    and z: "(case g of (ip, subs) \<Rightarrow>
                if length subs < 2 then Inr [] else collect (same_ip_pair ip) (pairs subs)) = Inr zs"
    and pz: "p \<in> set zs"
    by blast
  obtain ip subs where gi: "g = (ip, subs)" by (cases g)
  have ne: "ip \<noteq> []" using g gi ip_groups_keys by blast
  from z gi pz have c: "collect (same_ip_pair ip) (pairs subs) = Inr zs"
    by (auto split: if_splits)
  from collect_mem[OF c pz] obtain pr ws where "same_ip_pair ip pr = Inr ws" "p \<in> set ws"
    by blast
  from same_ip_pair_evidence[OF this] ne show ?thesis
    unfolding pass_evidence_def by blast
qed

lemma detect_duplicate_wrong_evidence:
  assumes "p \<in> set (detect_duplicate_wrong_pattern submissions)"
  shows "pass_evidence (pattern_evidence p)"
proof -
  from assms obtain tx pr where m: "p \<in> set (duplicate_wrong_pair tx pr)"
    by (auto simp: detect_duplicate_wrong_pattern_def Let_def split: if_splits)
  obtain a b where pr: "pr = (a, b)" by (cases pr)
  from m pr have "pattern_evidence p = duplicate_wrong_evidence tx a b"
    by (auto simp: duplicate_wrong_pair_def split: if_splits)
  then show ?thesis unfolding pass_evidence_def by blast
qed

lemma pairs_mem: "(a, b) \<in> set (pairs xs) \<Longrightarrow> a \<in> set xs \<and> b \<in> set xs"
  by (induction xs) auto

lemma detect_similar_ua_evidence:
  assumes "p \<in> set (detect_similar_ua_pattern submissions)"
  shows "pass_evidence (pattern_evidence p)"
proof -
  let ?ua = "filter (\<lambda>s. case sub_user_agent s of None \<Rightarrow> False | Some ua \<Rightarrow> ua \<noteq> []) submissions"
  from assms obtain pr where pr: "pr \<in> set (pairs ?ua)" and p: "p \<in> set (similar_ua_pair pr)"
    by (auto simp: detect_similar_ua_pattern_def Let_def split: if_splits)
  obtain sub1 sub2 where prd: "pr = (sub1, sub2)" by (cases pr)
  from pairs_mem[of sub1 sub2 ?ua] pr prd obtain ua1 ua2 where
    ua: "sub_user_agent sub1 = Some ua1" "ua1 \<noteq> []" "sub_user_agent sub2 = Some ua2" "ua2 \<noteq> []"
    by (auto split: option.splits)
  from p prd ua have
    "pattern_evidence p = similar_ua_evidence (levenshtein_ratio ua1 ua2) ua1 ua2 sub1 sub2"
    by (auto simp: similar_ua_pair_def Let_def split: if_splits)
  with ua show ?thesis unfolding pass_evidence_def by blast
qed

lemma patterns_of_challenge_evidence:
  assumes "patterns_of_challenge submissions = Inr ps" and "p \<in> set ps"
  shows "pass_evidence (pattern_evidence p)"
  using assms detect_same_ip_evidence detect_duplicate_wrong_evidence detect_similar_ua_evidence
  by (auto simp: patterns_of_challenge_def split: sum.splits)

lemma create_suspicion_record_effect:
  "suspicions (snd (create_suspicion_record L env db p)) = suspicions db
   \<or> (\<exists>f ev. suspicions (snd (create_suspicion_record L env db p)) = suspicions db @ [f]
          \<and> sanitize_evidence L (pattern_evidence p) = Inr ev \<and> su_evidence f = ev)"
  by (auto simp: create_suspicion_record_def create_suspicion_body_def Let_def
      split: option.splits sum.splits if_splits)

lemma create_all_sanitized:
  assumes "\<forall>p \<in> set ps. pass_evidence (pattern_evidence p)"
      and "only_sanitized L db0 db"
  shows "only_sanitized L db0 (create_all L threshold env ps db)"
  using assms
proof (induction ps arbitrary: db)
  case Nil
  then show ?case by simp
next
  case (Cons p ps)
  have pe: "pass_evidence (pattern_evidence p)" using Cons.prems(1) by simp
  have step: "only_sanitized L db0 (snd (create_suspicion_record L env db p))"
    using create_suspicion_record_effect[of L env db p] pass_evidence_pii_free[OF pe, of L]
      Cons.prems(2)
    by (auto simp: only_sanitized_def)
  show ?case
    using Cons.IH[of db] Cons.IH[OF _ step] Cons.prems by simp
qed

lemma analyse_challenges_sanitized:
  assumes "only_sanitized L db0 db"
  shows "only_sanitized L db0 (snd (analyse_challenges L threshold env groups db))"
  using assms
proof (induction groups arbitrary: db)
  case Nil
  then show ?case by simp
next
  case (Cons g groups)
  obtain c submissions where g: "g = (c, submissions)" by (cases g)
  show ?case
  proof (cases "length submissions < 2")
    case True
    with Cons g show ?thesis by simp
  next
    case False
    show ?thesis
    proof (cases "patterns_of_challenge submissions")
      case (Inl e)
      with False g Cons.prems show ?thesis by simp
    next
      case (Inr ps)
      have "only_sanitized L db0 (create_all L threshold env ps db)"
        using create_all_sanitized[OF _ Cons.prems] patterns_of_challenge_evidence[OF Inr]
        by blast
      from Cons.IH[OF this] Inr False g show ?thesis by simp
    qed
  qed
qed

lemma chrome_ua_family:
  "browser_family (lower (take 200 chrome_ua)) = ''Chrome''"
  "os_family (lower (take 200 chrome_ua)) = ''Windows''"
  "chrome_ua \<noteq> []"
  "lower (strip ''flag{guess}'') = ''flag{guess}''"
  by code_simp+

lemma levenshtein_same: "a \<noteq> [] \<Longrightarrow> levenshtein_ratio a a = 1"
  by (simp add: levenshtein_ratio_def)

lemma run_example:
  "map su_evidence (suspicions (snd (detect_flag_sharing_patterns True (example_lib []) (4 / 10)
       create_env0 [submission_of 11 2 1000000, submission_of 12 3 3000000] review_db2)))
   = [[(''ip_hash'', PStr (take 16 (digest64 ''10.0.0.7''))),
       (''time_delta_seconds'', PFloat 2),
       (''submission_1_id'', PInt 11), (''submission_2_id'', PInt 12),
       (''submission_1_text'', PStr ''[REDACTED]''),
       (''submission_2_text'', PStr ''[REDACTED]'')],
      [(''submission_text'', PStr ''[REDACTED]''),
       (''time_delta_seconds'', PFloat 2),
       (''submission_1_id'', PInt 11), (''submission_2_id'', PInt 12),
       (''ip_1_hash'', PStr (take 16 (digest64 ''10.0.0.7''))),
       (''ip_2_hash'', PStr (take 16 (digest64 ''10.0.0.7'')))],
      [(''ua_similarity'', PFloat 1),
       (''browser_os_1'', PStr ''Chrome on Windows''),
       (''browser_os_2'', PStr ''Chrome on Windows''),
       (''time_delta_seconds'', PFloat 2),
       (''submission_1_id'', PInt 11), (''submission_2_id'', PInt 12),
       (''ip_1_hash'', PStr (take 16 (digest64 ''10.0.0.7''))),
       (''ip_2_hash'', PStr (take 16 (digest64 ''10.0.0.7'')))]]"
  by (simp add: detect_flag_sharing_patterns_def MAX_SUBMISSIONS_def challenge_groups_def
      patterns_of_challenge_def detect_same_ip_pattern_def ip_groups_def same_ip_pair_def
      detect_duplicate_wrong_pattern_def text_groups_def duplicate_wrong_pair_def
      detect_similar_ua_pattern_def similar_ua_pair_def submission_of_def review_db2_def
      create_env0_def consent_row_def create_suspicion_record_def create_suspicion_body_def
      consent_of_def calculate_suspicion_confidence_def time_delta_seconds_def
      TEMPORAL_WINDOW_SECONDS_def UA_SIMILARITY_THRESHOLD_def WEIGHT_SAME_IP_def
      WEIGHT_DUPLICATE_WRONG_def WEIGHT_SIMILAR_UA_def WEIGHT_TEMPORAL_PROXIMITY_def
      chrome_ua_family levenshtein_same sanitize_same_ip sanitize_duplicate_wrong
      sanitize_similar_ua ip_item_def example_lib_def fresh_id_def Let_def)

section \<open>Results\<close>

subsection \<open>C1: at most one first-blood row per challenge\<close>

text \<open>
  C1, as stated: after any N \<ge> 1 solves of one challenge have been processed, exactly
  one first-blood row of that challenge exists. When \<^verbatim>\<open>GET_LOCK\<close> times out the hook
  returns without deciding (\<^verbatim>\<open>return  # Skip first blood detection on lock failure\<close>):
  one solve, processed under a lock timeout, leaves no row.
\<close>

theorem lock_timeout_leaves_no_record_counterexample:
  "winners True hint_lib example_secret
     [InsertSolve (solve_of 1 2 100), Engine env_lock_timeout (solve_of 1 2 100)] store3 3
   = Some []"
  by (simp add: engine_defs)

text \<open>
  C1, amended: every schedule of insertions and engine runs, whatever fails in it,
  keeps at most one first-blood row per challenge. If moreover the engine is enabled,
  no statement or cache call fails, every lock is acquired or unsupported, the cache
  holds readable entries, no solve of the challenge was stored before, and every
  inserted solve has been processed, then exactly one row of the challenge exists
  once a solve of it has been inserted.
\<close>

theorem first_blood_unique_per_challenge:
  assumes run: "run_ops en L cfg ops (st, pending) = Some (st', pending')"
      and uniq: "distinct (map fb_challenge_id (first_blood st))"
  shows "distinct (map fb_challenge_id (first_blood st'))
       \<and> (en \<and> list_all op_ok ops \<and> hint_codec_ok L cfg
            \<and> store_consistent st \<and> cache_readable L cfg (redis st)
            \<and> (\<forall>s \<in> set (solves st). solve_challenge_id s \<noteq> c)
            \<and> pending = [] \<and> pending' = []
            \<and> (\<exists>s. InsertSolve s \<in> set ops \<and> solve_challenge_id s = c)
          \<longrightarrow> length (first_blood_of st' c) = 1)"
proof
  show d: "distinct (map fb_challenge_id (first_blood st'))"
    using run_ops_distinct[OF run uniq] .
  show "en \<and> list_all op_ok ops \<and> hint_codec_ok L cfg
            \<and> store_consistent st \<and> cache_readable L cfg (redis st)
            \<and> (\<forall>s \<in> set (solves st). solve_challenge_id s \<noteq> c)
            \<and> pending = [] \<and> pending' = []
            \<and> (\<exists>s. InsertSolve s \<in> set ops \<and> solve_challenge_id s = c)
          \<longrightarrow> length (first_blood_of st' c) = 1"
  proof
    assume h: "en \<and> list_all op_ok ops \<and> hint_codec_ok L cfg
            \<and> store_consistent st \<and> cache_readable L cfg (redis st)
            \<and> (\<forall>s \<in> set (solves st). solve_challenge_id s \<noteq> c)
            \<and> pending = [] \<and> pending' = []
            \<and> (\<exists>s. InsertSolve s \<in> set ops \<and> solve_challenge_id s = c)"
    then obtain s where s: "InsertSolve s \<in> set ops" "solve_challenge_id s = c" by blast
    have nofb: "first_blood_of st c = []"
      using h by (fastforce simp: store_consistent_def first_blood_of_def filter_empty_conv)
    have inv0: "run_inv L cfg c (st, [])"
      using h nofb by (auto simp: run_inv_def)
    have run': "run_ops True L cfg ops (st, []) = Some (st', [])"
      using run h by simp
    have inv: "run_inv L cfg c (st', [])"
      using run_ops_inv[OF run' inv0] h by simp
    have "s \<in> set (solves st')"
      using run_ops_solves_grow[OF run'] s(1) by blast
    from run_inv_final[OF inv this s(2)] have "first_blood_of st' c \<noteq> []" .
    then show "length (first_blood_of st' c) = 1"
      unfolding first_blood_of_def using distinct_filter_one[OF d] by blast
  qed
qed

theorem first_blood_unique_per_challenge_witness:
  "distinct (map fb_challenge_id (first_blood (fst (the (run_ops True hint_lib example_secret
     [InsertSolve (solve_of 1 2 100), Engine env_acquired (solve_of 1 2 100),
      InsertSolve (solve_of 2 3 101), Engine env_acquired (solve_of 2 3 101)] (store3, []))))))
   \<and> length (first_blood_of (fst (the (run_ops True hint_lib example_secret
     [InsertSolve (solve_of 1 2 100), Engine env_acquired (solve_of 1 2 100),
      InsertSolve (solve_of 2 3 101), Engine env_acquired (solve_of 2 3 101)] (store3, [])))) 3) = 1"
proof -
  let ?ops = "[InsertSolve (solve_of 1 2 100), Engine env_acquired (solve_of 1 2 100),
      InsertSolve (solve_of 2 3 101), Engine env_acquired (solve_of 2 3 101)]"
  have "\<exists>st'. run_ops True hint_lib example_secret ?ops (store3, []) = Some (st', [])"
    by (simp add: engine_defs)
  then obtain st' where r: "run_ops True hint_lib example_secret ?ops (store3, []) = Some (st', [])" ..
  have u: "distinct (map fb_challenge_id (first_blood store3))"
    by (simp add: store3_def)
  have ok: "list_all op_ok ?ops" by (simp add: env_ok_def env_acquired_def solve_of_def)
  have codec: "hint_codec_ok hint_lib example_secret"
    by (simp add: hint_codec_ok_def engine_defs)
  have cons: "store_consistent store3" by (simp add: store_consistent_def store3_def)
  have rd: "cache_readable hint_lib example_secret (redis store3)"
    by (simp add: cache_readable_def entry_readable_def store3_def)
  have ins: "\<exists>s. InsertSolve s \<in> set ?ops \<and> solve_challenge_id s = 3"
    by (rule exI[of _ "solve_of 1 2 100"]) (simp add: solve_of_def)
  have none: "\<forall>s \<in> set (solves store3). solve_challenge_id s \<noteq> 3" by (simp add: store3_def)
  note inst = first_blood_unique_per_challenge[OF r u, of 3]
  have prem: "True \<and> list_all op_ok ?ops \<and> hint_codec_ok hint_lib example_secret
            \<and> store_consistent store3 \<and> cache_readable hint_lib example_secret (redis store3)
            \<and> (\<forall>s \<in> set (solves store3). solve_challenge_id s \<noteq> 3)
            \<and> ([]::solve list) = [] \<and> ([]::solve list) = []
            \<and> (\<exists>s. InsertSolve s \<in> set ?ops \<and> solve_challenge_id s = 3)"
    using ok codec cons rd ins none by (intro conjI) simp_all
  have "distinct (map fb_challenge_id (first_blood st'))"
    using inst by (rule conjunct1)
  moreover have "length (first_blood_of st' 3) = 1"
    using inst[THEN conjunct2] prem by (rule mp)
  ultimately show ?thesis using r by simp
qed

subsection \<open>C2: the tie-break rule\<close>




subsection \<open>C3: suspicion records are consent-gated\<close>

text \<open>
  C3: when a user involved in a pattern (\<open>user_id_1\<close>, and \<open>user_id_2\<close> when present) has
  no consent row or a row with \<open>consented = False\<close>, \<^verbatim>\<open>create_suspicion_record\<close> creates
  nothing and leaves the store as it was, also when a query or the commit fails; in
  particular after a completed \<^verbatim>\<open>withdraw_consent\<close> of that user. User ids are
  primary keys of \<^verbatim>\<open>users\<close>, which start at 1: the hypothesis on \<open>user_id_2\<close> excludes the
  id 0, which \<^verbatim>\<open>if user_id_2:\<close> treats as absent.
\<close>

theorem no_finding_without_consent:
  assumes inv: "u \<in> set (involved_users p)" and nz: "user_id_2 p \<noteq> Some 0"
  shows "(\<not> has_consent db u \<longrightarrow> create_suspicion_record L env db p = (None, db))
       \<and> (withdraw_consent fault now u db = Inr db'
            \<longrightarrow> create_suspicion_record L env db' p = (None, db'))"
  using create_without_consent[OF inv nz] has_consent_after_withdraw by blast

theorem no_finding_without_consent_witness:
  "3 \<in> set (involved_users pattern23) \<and> user_id_2 pattern23 \<noteq> Some 0
   \<and> \<not> has_consent (review_db1\<lparr>consents := [consent_row 2 True]\<rparr>) 3
   \<and> create_suspicion_record (example_lib []) create_env0
         (review_db1\<lparr>consents := [consent_row 2 True]\<rparr>) pattern23
       = (None, review_db1\<lparr>consents := [consent_row 2 True]\<rparr>)
   \<and> withdraw_consent None 50 3 review_db1
       = Inr (review_db1\<lparr>consents := [consent_row 2 True,
                (consent_row 3 True)\<lparr>consented := False, withdrawn_at := Some 50, last_updated := 50\<rparr>]\<rparr>)
   \<and> create_suspicion_record (example_lib []) create_env0
         (review_db1\<lparr>consents := [consent_row 2 True,
                (consent_row 3 True)\<lparr>consented := False, withdrawn_at := Some 50, last_updated := 50\<rparr>]\<rparr>)
         pattern23
       = (None, review_db1\<lparr>consents := [consent_row 2 True,
                (consent_row 3 True)\<lparr>consented := False, withdrawn_at := Some 50, last_updated := 50\<rparr>]\<rparr>)"
proof -
  have a: "3 \<in> set (involved_users pattern23)" by (simp add: involved_users_def pattern23_def)
  have b: "user_id_2 pattern23 \<noteq> Some 0" by (simp add: pattern23_def)
  have c: "\<not> has_consent (review_db1\<lparr>consents := [consent_row 2 True]\<rparr>) 3"
    by (simp add: has_consent_def consent_of_def consent_row_def)
  have d: "withdraw_consent None 50 3 review_db1
       = Inr (review_db1\<lparr>consents := [consent_row 2 True,
                (consent_row 3 True)\<lparr>consented := False, withdrawn_at := Some 50, last_updated := 50\<rparr>]\<rparr>)"
    by (simp add: withdraw_consent_def consent_of_def review_db1_def consent_row_def)
  from no_finding_without_consent[OF a b, of "review_db1\<lparr>consents := [consent_row 2 True]\<rparr>"
      "example_lib []" create_env0] c
  have e: "create_suspicion_record (example_lib []) create_env0
         (review_db1\<lparr>consents := [consent_row 2 True]\<rparr>) pattern23
       = (None, review_db1\<lparr>consents := [consent_row 2 True]\<rparr>)" by blast
  from no_finding_without_consent[OF a b, of review_db1 "example_lib []" create_env0 None 50] d
  have f: "create_suspicion_record (example_lib []) create_env0
         (review_db1\<lparr>consents := [consent_row 2 True,
                (consent_row 3 True)\<lparr>consented := False, withdrawn_at := Some 50, last_updated := 50\<rparr>]\<rparr>)
         pattern23
       = (None, review_db1\<lparr>consents := [consent_row 2 True,
                (consent_row 3 True)\<lparr>consented := False, withdrawn_at := Some 50, last_updated := 50\<rparr>]\<rparr>)"
    by blast
  show ?thesis using a b c d e f by blast
qed

subsection \<open>C4: persisted evidence is sanitised\<close>

text \<open>
  C4: every finding that a detection run adds to the store, from any of the three
  passes, carries sanitised evidence: the IP addresses appear only as truncated SHA-256
  digests under \<^verbatim>\<open>_hash\<close> keys (or as an empty value when the submission had none),
  the user agents only as browser-on-OS forms, the submission texts only as the marker
  \<^verbatim>\<open>[REDACTED]\<close>; every other value is a number.
\<close>

theorem persisted_evidence_is_sanitized:
  assumes "detect_flag_sharing_patterns enabled L threshold env recent_submissions db = (e, db')"
  shows "\<forall>f \<in> set (suspicions db'). f \<in> set (suspicions db) \<or> pii_free L (su_evidence f)"
proof -
  have "only_sanitized L db db" by (simp add: only_sanitized_def)
  from analyse_challenges_sanitized[OF this, of threshold env]
  have "only_sanitized L db (snd (detect_flag_sharing_patterns enabled L threshold env recent_submissions db))"
    by (simp add: detect_flag_sharing_patterns_def only_sanitized_def)
  then show ?thesis using assms by (simp add: only_sanitized_def)
qed

theorem persisted_evidence_is_sanitized_witness:
  "length (suspicions (snd (detect_flag_sharing_patterns True (example_lib []) (4 / 10)
       create_env0 [submission_of 11 2 1000000, submission_of 12 3 3000000] review_db2))) = 3
   \<and> list_all (pii_free (example_lib []) \<circ> su_evidence)
         (suspicions (snd (detect_flag_sharing_patterns True (example_lib []) (4 / 10)
            create_env0 [submission_of 11 2 1000000, submission_of 12 3 3000000] review_db2)))"
proof -
  let ?run = "detect_flag_sharing_patterns True (example_lib []) (4 / 10)
       create_env0 [submission_of 11 2 1000000, submission_of 12 3 3000000] review_db2"
  have r: "?run = (fst ?run, snd ?run)" by simp
  have "length (map su_evidence (suspicions (snd ?run))) = 3"
    unfolding run_example by simp
  then have n: "length (suspicions (snd ?run)) = 3" by simp
  have "suspicions review_db2 = []" by (simp add: review_db2_def)
  with persisted_evidence_is_sanitized[OF r]
  have "list_all (pii_free (example_lib []) \<circ> su_evidence) (suspicions (snd ?run))"
    by (simp add: list_all_iff)
  with n show ?thesis by blast
qed

subsection \<open>C5: the engine never raises\<close>



subsection \<open>C6: the cache hint\<close>

text \<open>
  C6, as stated: when the hint of the challenge is present and verifies, the engine
  exits at once, without lock, query or insert. The hook reads the hint into
  \<^verbatim>\<open>cached_hint\<close> and never looks at it (\<^verbatim>\<open># Even if signed cache says "claimed", we
  still verify with DB\<close>): with a verifying hint in the cache and no first-blood row, the
  engine takes the lock, queries and inserts the row of user 2.
\<close>

theorem verified_hint_still_processed_counterexample:
  "get_signed_cache hint_lib example_secret (redis store3_hinted) (first_blood_key 3)
     = Inr (Some (JStr ''1''), redis store3_hinted)
   \<and> winners True hint_lib example_secret
       [InsertSolve (solve_of 1 2 100), Engine env_acquired (solve_of 1 2 100)] store3_hinted 3
     = Some [Some 2]"
  by (simp add: engine_defs store3_hinted_def)

text \<open>
  C6, amended: a present, verifying hint changes nothing: the engine goes on to the
  lock, the queries and the insert, and the three tables after the run are those of
  the same run with the hint absent.
\<close>

theorem verified_hint_is_not_a_shortcut:
  assumes hint: "get_signed_cache L cfg (redis st) (first_blood_key (solve_challenge_id target))
                   = Inr (Some v, c1)"
  shows "\<exists>st1 st2.
           on_solve_inserted en L cfg env st target = Inr st1
         \<and> on_solve_inserted en L cfg env
               (st\<lparr>redis := (redis st)(first_blood_key (solve_challenge_id target) := None)\<rparr>)
               target = Inr st2
         \<and> solves st1 = solves st2 \<and> challenges st1 = challenges st2
         \<and> first_blood st1 = first_blood st2"
proof -
  let ?key = "first_blood_key (solve_challenge_id target)"
  let ?st' = "st\<lparr>redis := (redis st)(?key := None)\<rparr>"
  have c1: "c1 = redis st"
    using get_signed_cache_value_verified[OF hint] by blast
  have g2: "get_signed_cache L cfg (redis ?st') ?key = Inr (None, redis ?st')"
    by (simp add: get_signed_cache_def)
  have db: "db_of st = db_of ?st'" by (simp add: db_of_def)
  have "same_db (first_blood_body L cfg env st target) (first_blood_body L cfg env ?st' target)"
    using first_blood_body_same[of env L cfg st ?key ?st' target] hint c1 g2 db by blast
  then show ?thesis
    by (cases "first_blood_body L cfg env st target"; cases "first_blood_body L cfg env ?st' target")
       (auto simp: on_solve_inserted_def same_db_def db_of_def split: option.splits)
qed

theorem verified_hint_is_not_a_shortcut_witness:
  "get_signed_cache hint_lib example_secret (redis (store3_hinted\<lparr>solves := [solve_of 1 2 100]\<rparr>))
       (first_blood_key (solve_challenge_id (solve_of 1 2 100)))
     = Inr (Some (JStr ''1''), redis store3_hinted)
   \<and> (\<exists>st1 st2.
           on_solve_inserted True hint_lib example_secret env_acquired
               (store3_hinted\<lparr>solves := [solve_of 1 2 100]\<rparr>) (solve_of 1 2 100) = Inr st1
         \<and> on_solve_inserted True hint_lib example_secret env_acquired
               (store3_hinted\<lparr>solves := [solve_of 1 2 100],
                  redis := (redis (store3_hinted\<lparr>solves := [solve_of 1 2 100]\<rparr>))
                     (first_blood_key (solve_challenge_id (solve_of 1 2 100)) := None)\<rparr>)
               (solve_of 1 2 100) = Inr st2
         \<and> solves st1 = solves st2 \<and> challenges st1 = challenges st2
         \<and> first_blood st1 = first_blood st2)"
proof -
  have h: "get_signed_cache hint_lib example_secret (redis (store3_hinted\<lparr>solves := [solve_of 1 2 100]\<rparr>))
       (first_blood_key (solve_challenge_id (solve_of 1 2 100)))
     = Inr (Some (JStr ''1''), redis store3_hinted)"
    by (simp add: engine_defs store3_hinted_def)
  from verified_hint_is_not_a_shortcut[OF h, of True env_acquired] h show ?thesis
    by simp
qed

subsection \<open>C7: the prestige score\<close>




subsection \<open>C8: entries that do not verify\<close>

text \<open>
  C8 says that every entry whose signature does not verify or whose payload is
  malformed makes \<^verbatim>\<open>get_signed_cache\<close> return \<^verbatim>\<open>None\<close> and delete the entry. The
  lemmas \<open>get_signed_cache_forged_rejected\<close>, \<open>get_signed_cache_undecodable_rejected\<close>
  and \<open>get_signed_cache_value_verified\<close> above show this for a forged, truncated or
  missing signature next to a string value, and for text that is not JSON. It fails
  for the payload \<^verbatim>\<open>{"signature": "fake"}\<close> (no value, a non-empty signature), one of
  the payloads of \<^verbatim>\<open>redteam_d1_hmac_forgery.py\<close>: \<^verbatim>\<open>sign_redis_value(None)\<close> raises
  \<^verbatim>\<open>AttributeError\<close>, which \<^verbatim>\<open>except (json.JSONDecodeError, KeyError, TypeError)\<close>
  does not catch, so the call raises and the entry stays in the cache.
\<close>

theorem get_signed_cache_missing_value_raises:
  \<open>json_text (JObj [(''signature'', JStr ''fake'')]) = ''{"signature": "fake"}''
   \<and> get_signed_cache (example_lib [JObj [(''signature'', JStr ''fake'')]]) example_secret
         [''phase2:attack_test:injection'' \<mapsto> ''{"signature": "fake"}'']
         ''phase2:attack_test:injection''
       = Inl (AttributeError ''object has no attribute encode'')\<close>
  by (simp add: get_signed_cache_def example_lib_def loads_among_def dict_get_def
      verify_redis_signature_def json_quote_def)

subsection \<open>C9: every verdict appends an audit entry\<close>



subsection \<open>C10: signed-cache round trip\<close>

text \<open>
  C10: for every key and string value, \<^verbatim>\<open>set_signed_cache\<close> followed by
  \<^verbatim>\<open>get_signed_cache\<close> on the same key, under the same secret, returns exactly the value
  and leaves the entry in place. What the theorem takes from Python's library: \<^verbatim>\<open>json.loads\<close>
  reads back the document \<^verbatim>\<open>json.dumps\<close> wrote, that text is not empty, and the hex
  digest is a non-empty ASCII string. The model of the cache has no expiry: the read
  comes before the entry expires.
\<close>

theorem signed_cache_round_trip:
  assumes codec: "json_loads L (json_dumps L (signed_document L cfg v)) = Some (signed_document L cfg v)"
      and dumped: "json_dumps L (signed_document L cfg v) \<noteq> []"
      and sig: "sign_redis_value L cfg v \<noteq> []"
      and ascii: "is_ascii (sign_redis_value L cfg v)"
  shows "get_signed_cache L cfg (set_signed_cache L cfg c key v) key
         = Inr (Some (JStr v), set_signed_cache L cfg c key v)"
proof -
  have verify: "verify_redis_signature L cfg (JStr v) (JStr (sign_redis_value L cfg v)) = Inr True"
    using sig ascii by (simp add: verify_redis_signature_def compare_digest_def)
  show ?thesis
    using codec dumped verify
    by (simp add: get_signed_cache_def set_signed_cache_def signed_document_def dict_get_def Let_def)
qed

theorem signed_cache_round_trip_witness:
  "get_signed_cache (example_lib [signed_document (example_lib []) example_secret ''1''])
     example_secret
     (set_signed_cache (example_lib [signed_document (example_lib []) example_secret ''1''])
        example_secret Map.empty ''phase2:fb:123'' ''1'')
     ''phase2:fb:123''
   = Inr (Some (JStr ''1''),
          set_signed_cache (example_lib [signed_document (example_lib []) example_secret ''1''])
            example_secret Map.empty ''phase2:fb:123'' ''1'')"
  by (rule signed_cache_round_trip)
     (simp_all add: example_lib_def signed_document_def sign_redis_value_def loads_among_def
        digest64_nonempty digest64_ascii)

end
